theory Spec2Isabelle
  imports Main "HOL-Library.AList"
begin

section \<open>The WebSocket relay of server.js\<close>

text \<open>
  The relay keeps one module-level object \<open>clients\<close> with two JavaScript Sets of
  connections (\<open>consumers\<close>, \<open>producers\<close>) and a plain object \<open>deviceSubscriptions\<close>
  whose own properties map a device identifier to a Set of connections. Event handlers
  (\<open>connection\<close>, \<open>pong\<close>, \<open>message\<close>, \<open>close\<close>), the two broadcast functions and the
  heartbeat timer read and mutate that object. Each is modelled as a function from the
  state before the event to the state after it, together with the calls it makes on
  sockets and on \<open>console.error\<close>, in order, and with the way it completes (normally
  or by a thrown exception). \<open>console.log\<close> output is not modelled. The clock
  (\<open>Date.now()\<close>, \<open>new Date()\<close>) is read once per event and passed in as \<open>now\<close>.
  The \<open>send\<close>, \<open>ping\<close> and \<open>terminate\<close> methods belong to the \<open>ws\<close> library: the model
  records that they are called, not what the library does then.
\<close>

subsection \<open>Connections, JavaScript Sets, the registry\<close>

text \<open>A connection is the identity of one \<open>ws\<close> object handed to the connection handler.\<close>

type_synonym conn = nat

text \<open>
  The properties of a \<open>ws\<close> object that the code reads or writes. \<open>readyState\<close> is owned
  by the library (0 CONNECTING, 1 OPEN, 2 CLOSING, 3 CLOSED) and only read here;
  \<open>lastActivity\<close> holds \<open>Date.now()\<close>, milliseconds as an integer.
\<close>

record socket =
  readyState :: nat
  lastActivity :: int
  isAlive :: bool

text \<open>
  A JavaScript Set iterates in insertion order, and adding a member again changes
  nothing: a Set is the list of its members in insertion order.
\<close>

definition set_add :: "conn \<Rightarrow> conn list \<Rightarrow> conn list" where
  "set_add ws xs = (if ws \<in> set xs then xs else xs @ [ws])"

definition set_delete :: "conn \<Rightarrow> conn list \<Rightarrow> conn list" where
  "set_delete ws xs = removeAll ws xs"

definition set_has :: "conn list \<Rightarrow> conn \<Rightarrow> bool" where
  "set_has xs ws = (ws \<in> set xs)"

definition set_size :: "conn list \<Rightarrow> nat" where
  "set_size xs = length xs"

text \<open>
  The own properties of \<open>clients.deviceSubscriptions\<close>: the list of (device identifier,
  subscriber Set) pairs, in insertion order. The code enumerates them only to test
  membership, to delete a connection from every Set and to delete empty Sets, so the
  order of enumeration does not show in the state or in the calls made.
\<close>

type_synonym subscriptions = "(string \<times> conn list) list"

record server =
  consumers :: "conn list"
  producers :: "conn list"
  deviceSubscriptions :: subscriptions
  sockets :: "conn \<Rightarrow> socket"

text \<open>
  The representation invariant of the JavaScript values: a Set holds a member once, and
  an object has a property name once.
\<close>

definition wf_subscriptions :: "subscriptions \<Rightarrow> bool" where
  "wf_subscriptions obj = (distinct (map fst obj) \<and> list_all (\<lambda>p. distinct (snd p)) obj)"

definition wf_server :: "server \<Rightarrow> bool" where
  "wf_server s = (distinct (consumers s) \<and> distinct (producers s) \<and>
     wf_subscriptions (deviceSubscriptions s))"

subsection \<open>Exceptions, effects, property lookup\<close>

datatype js_error = SyntaxError | TypeError | ReferenceError

datatype 'a completion = Normal 'a | Throw js_error

text \<open>
  \<open>deviceSubscriptions\<close> is created by the literal \<open>{}\<close> (line 22), so reading a property
  that is not its own continues in \<open>Object.prototype\<close>. These are the names the language
  defines there (ECMAScript, with its Annex B); each yields a truthy value (a function,
  or the prototype object for \<open>__proto__\<close>) that has neither \<open>add\<close> nor \<open>forEach\<close>.
\<close>

definition Object_prototype_names :: "string list" where
  "Object_prototype_names =
     [''constructor'', ''__defineGetter__'', ''__defineSetter__'', ''hasOwnProperty'',
      ''__lookupGetter__'', ''__lookupSetter__'', ''isPrototypeOf'',
      ''propertyIsEnumerable'', ''toString'', ''valueOf'', ''__proto__'',
      ''toLocaleString'']"

datatype property = Undefined | Subscribers "conn list" | Inherited

text \<open>The value of \<open>clients.deviceSubscriptions[deviceId]\<close>.\<close>

definition get_property :: "subscriptions \<Rightarrow> string \<Rightarrow> property" where
  "get_property obj device_id =
     (case map_of obj device_id of
        Some deviceClients \<Rightarrow> Subscribers deviceClients
      | None \<Rightarrow> if device_id \<in> set Object_prototype_names then Inherited else Undefined)"

text \<open>
  Device identifiers are strings, present or absent (query parameter, or member of a
  parsed frame). JavaScript truthiness of such a value: present and not empty.
\<close>

definition truthy :: "string option \<Rightarrow> bool" where
  "truthy v = (case v of None \<Rightarrow> False | Some str \<Rightarrow> str \<noteq> [])"

text \<open>
  A timestamp is either text supplied by a client or \<open>new Date().toISOString()\<close> taken by
  the server at an instant; the latter is represented by the instant.
\<close>

datatype tstamp = Given string | ISO int

definition truthy_tstamp :: "tstamp option \<Rightarrow> bool" where
  "truthy_tstamp v = (case v of None \<Rightarrow> False | Some (Given str) \<Rightarrow> str \<noteq> [] | Some (ISO t) \<Rightarrow> True)"

text \<open>
  A parsed JSON object, by the members the code inspects: \<open>type\<close> (here \<open>msg_type\<close>),
  \<open>deviceId\<close>, \<open>device\<close> and \<open>timestamp\<close>, each absent or, as the frame format has
  them, text. \<open>members\<close> holds the remaining members, which the code only copies.
\<close>

record json_object =
  msg_type :: "string option"
  deviceId :: "string option"
  device :: "string option"
  timestamp :: "tstamp option"
  members :: "(string \<times> string) list"

text \<open>What \<open>JSON.parse\<close> can return: \<open>null\<close>, an object, or another value (number, string,
  boolean, array), none of which has a \<open>type\<close> member.\<close>

datatype json = Json_null | Json_other | Json_object json_object

text \<open>An inbound frame, by what \<open>JSON.parse\<close> makes of it.\<close>

datatype raw_frame = Not_json | Json_text json

definition JSON_parse :: "raw_frame \<Rightarrow> json completion" where
  "JSON_parse message = (case message of Not_json \<Rightarrow> Throw SyntaxError | Json_text j \<Rightarrow> Normal j)"

text \<open>The frames the server writes (the argument of \<open>JSON.stringify\<close>).\<close>

datatype message =
    Connection string tstamp
  | Pong tstamp
  | Subscription_confirmed string tstamp
  | Event json_object

text \<open>Calls on a socket and on \<open>console.error\<close>, in the order they are made.\<close>

datatype effect =
    Send conn message
  | Ping conn
  | Terminate conn
  | Console_error js_error

subsection \<open>Subscribing a connection to a device\<close>

text \<open>
  The block that appears in the connection handler (lines 46 to 49) and in the
  \<open>subscribe\<close> branch (lines 79 to 82): create the Set when the lookup is falsy, then
  call \<open>add\<close> on what the lookup returns. An inherited value is truthy and has no
  \<open>add\<close>: the call throws a TypeError.
\<close>

definition add_subscription :: "string \<Rightarrow> conn \<Rightarrow> subscriptions \<Rightarrow> subscriptions completion" where
  "add_subscription device_id ws obj =
     (case get_property obj device_id of
        Undefined \<Rightarrow> Normal (obj @ [(device_id, set_add ws [])])
      | Subscribers deviceClients \<Rightarrow> Normal (AList.update device_id (set_add ws deviceClients) obj)
      | Inherited \<Rightarrow> Throw TypeError)"

subsection \<open>broadcastTelemetry and broadcastAlarm\<close>

text \<open>The first loop of \<open>broadcastTelemetry\<close> (lines 147 to 152), with the running count.\<close>

fun notify_subscribers :: "server \<Rightarrow> message \<Rightarrow> conn list \<Rightarrow> nat \<Rightarrow> nat \<times> effect list" where
  "notify_subscribers s m [] subscriberCount = (subscriberCount, [])"
| "notify_subscribers s m (client # rest) subscriberCount =
     (if readyState (sockets s client) = 1
      then (case notify_subscribers s m rest (subscriberCount + 1) of
              (n, es) \<Rightarrow> (n, Send client m # es))
      else notify_subscribers s m rest subscriberCount)"

text \<open>\<open>Object.values(clients.deviceSubscriptions).some(deviceClients => deviceClients.has(client))\<close>\<close>

definition isSubscribedToSpecificDevice :: "server \<Rightarrow> conn \<Rightarrow> bool" where
  "isSubscribedToSpecificDevice s client =
     list_ex (\<lambda>deviceClients. set_has deviceClients client) (map snd (deviceSubscriptions s))"

text \<open>The second loop (lines 156 to 165).\<close>

fun notify_unsubscribed :: "server \<Rightarrow> message \<Rightarrow> conn list \<Rightarrow> nat \<Rightarrow> nat \<times> effect list" where
  "notify_unsubscribed s m [] subscriberCount = (subscriberCount, [])"
| "notify_unsubscribed s m (client # rest) subscriberCount =
     (if \<not> isSubscribedToSpecificDevice s client \<and> readyState (sockets s client) = 1
      then (case notify_unsubscribed s m rest (subscriberCount + 1) of
              (n, es) \<Rightarrow> (n, Send client m # es))
      else notify_unsubscribed s m rest subscriberCount)"

text \<open>
  The frame built at lines 133 to 141: \<open>{type: 'telemetry', timestamp: data.timestamp,
  ...data}\<close> after a falsy \<open>data.timestamp\<close> was replaced by the current time.
\<close>

definition telemetry_message :: "json_object \<Rightarrow> int \<Rightarrow> message" where
  "telemetry_message data now =
     Event (data\<lparr>msg_type := Some (case msg_type data of None \<Rightarrow> ''telemetry'' | Some t \<Rightarrow> t),
                 timestamp := (if truthy_tstamp (timestamp data) then timestamp data
                               else Some (ISO now))\<rparr>)"

text \<open>\<open>data.deviceId || data.device\<close>\<close>

definition target_device :: "json_object \<Rightarrow> string option" where
  "target_device data = (if truthy (deviceId data) then deviceId data else device data)"

text \<open>
  \<open>broadcastTelemetry\<close> returns the count, or throws when the lookup at line 146 finds
  an inherited value: that value is truthy and its \<open>forEach\<close> is undefined. Nothing has
  been sent at that point.
\<close>

definition broadcastTelemetry :: "json_object \<Rightarrow> int \<Rightarrow> server \<Rightarrow> nat completion \<times> effect list" where
  "broadcastTelemetry data now s =
     (let m = telemetry_message data now;
          found = (case target_device data of
                     None \<Rightarrow> Undefined
                   | Some d \<Rightarrow> if d \<noteq> [] then get_property (deviceSubscriptions s) d else Undefined)
      in case found of
           Inherited \<Rightarrow> (Throw TypeError, [])
         | Undefined \<Rightarrow>
             (case notify_unsubscribed s m (consumers s) 0 of (n, es) \<Rightarrow> (Normal n, es))
         | Subscribers deviceClients \<Rightarrow>
             (case notify_subscribers s m deviceClients 0 of
                (k, es1) \<Rightarrow>
                  (case notify_unsubscribed s m (consumers s) k of
                     (n, es2) \<Rightarrow> (Normal n, es1 @ es2))))"

text \<open>The frame of \<open>broadcastAlarm\<close>: \<open>{type: 'alarm', timestamp: now, ...data}\<close>.\<close>

definition alarm_message :: "json_object \<Rightarrow> int \<Rightarrow> message" where
  "alarm_message data now =
     Event (data\<lparr>msg_type := Some (case msg_type data of None \<Rightarrow> ''alarm'' | Some t \<Rightarrow> t),
                 timestamp := (case timestamp data of None \<Rightarrow> Some (ISO now) | Some t \<Rightarrow> Some t)\<rparr>)"

fun notify_consumers :: "server \<Rightarrow> message \<Rightarrow> conn list \<Rightarrow> effect list" where
  "notify_consumers s m [] = []"
| "notify_consumers s m (client # rest) =
     (if readyState (sockets s client) = 1
      then Send client m # notify_consumers s m rest
      else notify_consumers s m rest)"

definition broadcastAlarm :: "json_object \<Rightarrow> int \<Rightarrow> server \<Rightarrow> effect list" where
  "broadcastAlarm data now s = notify_consumers s (alarm_message data now) (consumers s)"

subsection \<open>The connection handler and its per-socket handlers\<close>

definition touch :: "conn \<Rightarrow> int \<Rightarrow> server \<Rightarrow> server" where
  "touch ws now s = s\<lparr>sockets := (sockets s)(ws := (sockets s ws)\<lparr>lastActivity := now\<rparr>)\<rparr>"

text \<open>
  \<open>wss.on('connection')\<close>, with the two query parameters as read from the URL. A
  TypeError from the subscription block leaves the handler before the per-socket
  handlers are installed and before the confirmation frame is sent. (\<open>the\<close> is applied
  to a parameter only where \<open>truthy\<close> has found it present.)
\<close>

definition on_connection ::
  "conn \<Rightarrow> string option \<Rightarrow> string option \<Rightarrow> int \<Rightarrow> server \<Rightarrow> unit completion \<times> server \<times> effect list" where
  "on_connection ws clientType_param deviceId_param now s =
     (let clientType = (if truthy clientType_param then the clientType_param else ''consumer'');
          s1 = s\<lparr>sockets := (sockets s)(ws := (sockets s ws)\<lparr>lastActivity := now, isAlive := True\<rparr>)\<rparr>;
          confirmation = [Send ws (Connection clientType (ISO now))]
      in if clientType = ''producer''
         then (Normal (), s1\<lparr>producers := set_add ws (producers s1)\<rparr>, confirmation)
         else (let s2 = s1\<lparr>consumers := set_add ws (consumers s1)\<rparr>
               in if truthy deviceId_param
                  then (case add_subscription (the deviceId_param) ws (deviceSubscriptions s2) of
                          Throw e \<Rightarrow> (Throw e, s2, [])
                        | Normal obj \<Rightarrow> (Normal (), s2\<lparr>deviceSubscriptions := obj\<rparr>, confirmation))
                  else (Normal (), s2, confirmation)))"

text \<open>\<open>ws.on('pong')\<close>\<close>

definition on_pong :: "conn \<Rightarrow> int \<Rightarrow> server \<Rightarrow> server" where
  "on_pong ws now s =
     s\<lparr>sockets := (sockets s)(ws := (sockets s ws)\<lparr>lastActivity := now, isAlive := True\<rparr>)\<rparr>"

text \<open>
  The body of the \<open>try\<close> block of \<open>ws.on('message')\<close> (lines 63 to 92). Reading
  \<open>data.type\<close> of \<open>null\<close> throws a TypeError, after \<open>lastActivity\<close> was written.
\<close>

definition message_try ::
  "conn \<Rightarrow> raw_frame \<Rightarrow> int \<Rightarrow> server \<Rightarrow> unit completion \<times> server \<times> effect list" where
  "message_try ws message now s =
     (case JSON_parse message of
        Throw e \<Rightarrow> (Throw e, s, [])
      | Normal parsed \<Rightarrow>
          (let s1 = touch ws now s in
           case parsed of
             Json_null \<Rightarrow> (Throw TypeError, s1, [])
           | Json_other \<Rightarrow> (Normal (), s1, [])
           | Json_object data \<Rightarrow>
               if msg_type data = Some ''telemetry'' then
                 (case broadcastTelemetry data now s1 of
                    (Throw e, es) \<Rightarrow> (Throw e, s1, es)
                  | (Normal n, es) \<Rightarrow> (Normal (), s1, es))
               else if msg_type data = Some ''alarm'' then
                 (Normal (), s1, broadcastAlarm data now s1)
               else if msg_type data = Some ''ping'' then
                 (Normal (), s1, [Send ws (Pong (ISO now))])
               else if msg_type data = Some ''subscribe'' then
                 (if truthy (deviceId data)
                  then (case add_subscription (the (deviceId data)) ws (deviceSubscriptions s1) of
                          Throw e \<Rightarrow> (Throw e, s1, [])
                        | Normal obj \<Rightarrow>
                            (Normal (), s1\<lparr>deviceSubscriptions := obj\<rparr>,
                             [Send ws (Subscription_confirmed (the (deviceId data)) (ISO now))]))
                  else (Normal (), s1, []))
               else (Normal (), s1, [])))"

text \<open>\<open>ws.on('message')\<close>: the \<open>try\<close> block, and the \<open>catch\<close> that logs whatever it threw.\<close>

definition on_message ::
  "conn \<Rightarrow> raw_frame \<Rightarrow> int \<Rightarrow> server \<Rightarrow> unit completion \<times> server \<times> effect list" where
  "on_message ws message now s =
     (case message_try ws message now s of
        (Throw e, s', es) \<Rightarrow> (Normal (), s', es @ [Console_error e])
      | (Normal u, s', es) \<Rightarrow> (Normal (), s', es))"

text \<open>
  The clean-up loop shared by the \<open>close\<close> handler (lines 110 to 115) and the heartbeat
  (lines 270 to 275): for each name of \<open>Object.keys\<close>, taken before the loop, delete the
  property when its Set is empty. A name from that list is still an own property when
  it is visited, as only the visited name is deleted; the loop below passes over a name
  that is not found, which happens only for a list that holds a name twice.
\<close>

fun cleanup_empty :: "string list \<Rightarrow> subscriptions \<Rightarrow> subscriptions" where
  "cleanup_empty [] obj = obj"
| "cleanup_empty (device_id # rest) obj =
     (case map_of obj device_id of
        Some deviceClients \<Rightarrow>
          if set_size deviceClients = 0 then cleanup_empty rest (AList.delete device_id obj)
          else cleanup_empty rest obj
      | None \<Rightarrow> cleanup_empty rest obj)"

text \<open>\<open>Object.values(clients.deviceSubscriptions).forEach(deviceClients => deviceClients.delete(ws))\<close>\<close>

definition delete_everywhere :: "conn \<Rightarrow> subscriptions \<Rightarrow> subscriptions" where
  "delete_everywhere ws obj = map (\<lambda>p. (fst p, set_delete ws (snd p))) obj"

text \<open>\<open>ws.on('close')\<close>\<close>

definition on_close :: "conn \<Rightarrow> server \<Rightarrow> server" where
  "on_close ws s =
     (let s1 = s\<lparr>producers := set_delete ws (producers s)\<rparr>;
          s2 = s1\<lparr>consumers := set_delete ws (consumers s1)\<rparr>;
          s3 = s2\<lparr>deviceSubscriptions := delete_everywhere ws (deviceSubscriptions s2)\<rparr>
      in s3\<lparr>deviceSubscriptions :=
             cleanup_empty (map fst (deviceSubscriptions s3)) (deviceSubscriptions s3)\<rparr>)"

subsection \<open>The heartbeat\<close>

text \<open>
  server.js imports only \<open>WebSocketServer\<close> from the library, so the identifier
  \<open>WebSocket\<close> in \<open>client.readyState === WebSocket.OPEN\<close> (lines 245 and 263) is
  resolved by the runtime's global scope. It is a parameter here: \<open>Some k\<close> when the
  runtime binds \<open>WebSocket\<close> and its \<open>OPEN\<close> is \<open>k\<close> (the standard value is 1), \<open>None\<close>
  when the identifier is unbound, in which case evaluating it throws a ReferenceError.
  The comparison is reached only for a connection that is not over the deadline.

  Deleting the visited member of a Set inside its \<open>forEach\<close> does not disturb the visit
  of the other members, so each loop runs over the members found at its start.
\<close>

fun check_producers ::
  "nat option \<Rightarrow> int \<Rightarrow> conn list \<Rightarrow> server \<Rightarrow> unit completion \<times> server \<times> effect list" where
  "check_producers WebSocket_OPEN now [] s = (Normal (), s, [])"
| "check_producers WebSocket_OPEN now (client # rest) s =
     (if now - lastActivity (sockets s client) > 120000 then
        (case check_producers WebSocket_OPEN now rest
                (s\<lparr>producers := set_delete client (producers s)\<rparr>) of
           (r, s', es) \<Rightarrow> (r, s', Terminate client # es))
      else
        (case WebSocket_OPEN of
           None \<Rightarrow> (Throw ReferenceError, s, [])
         | Some opn \<Rightarrow>
             if readyState (sockets s client) = opn then
               (case check_producers WebSocket_OPEN now rest s of
                  (r, s', es) \<Rightarrow> (r, s', Ping client # es))
             else check_producers WebSocket_OPEN now rest s))"

fun check_consumers ::
  "nat option \<Rightarrow> int \<Rightarrow> conn list \<Rightarrow> server \<Rightarrow> unit completion \<times> server \<times> effect list" where
  "check_consumers WebSocket_OPEN now [] s = (Normal (), s, [])"
| "check_consumers WebSocket_OPEN now (client # rest) s =
     (if now - lastActivity (sockets s client) > 120000 then
        (case check_consumers WebSocket_OPEN now rest
                (s\<lparr>consumers := set_delete client (consumers s),
                   deviceSubscriptions := delete_everywhere client (deviceSubscriptions s)\<rparr>) of
           (r, s', es) \<Rightarrow> (r, s', Terminate client # es))
      else
        (case WebSocket_OPEN of
           None \<Rightarrow> (Throw ReferenceError, s, [])
         | Some opn \<Rightarrow>
             if readyState (sockets s client) = opn then
               (case check_consumers WebSocket_OPEN now rest s of
                  (r, s', es) \<Rightarrow> (r, s', Ping client # es))
             else check_consumers WebSocket_OPEN now rest s))"

text \<open>
  One run of the timer callback of \<open>startHeartbeat\<close> (lines 234 to 279). An exception
  in a loop ends the callback: the later loops and the clean-up do not run.
\<close>

definition heartbeat_tick ::
  "nat option \<Rightarrow> int \<Rightarrow> server \<Rightarrow> unit completion \<times> server \<times> effect list" where
  "heartbeat_tick WebSocket_OPEN now s =
     (case check_producers WebSocket_OPEN now (producers s) s of
        (Throw e, s1, es1) \<Rightarrow> (Throw e, s1, es1)
      | (Normal u, s1, es1) \<Rightarrow>
          (case check_consumers WebSocket_OPEN now (consumers s1) s1 of
             (Throw e, s2, es2) \<Rightarrow> (Throw e, s2, es1 @ es2)
           | (Normal v, s2, es2) \<Rightarrow>
               (Normal (),
                s2\<lparr>deviceSubscriptions :=
                     cleanup_empty (map fst (deviceSubscriptions s2)) (deviceSubscriptions s2)\<rparr>,
                es1 @ es2)))"

subsection \<open>Concrete runs\<close>

text \<open>
  The registry as server.js creates it (lines 19 to 23). Every socket object is OPEN, as
  the library hands it to the connection handler.
\<close>

definition startup :: server where
  "startup = \<lparr>consumers = [], producers = [], deviceSubscriptions = [],
               sockets = (\<lambda>ws. \<lparr>readyState = 1, lastActivity = 0, isAlive = True\<rparr>)\<rparr>"

text \<open>The frame \<open>{"type": t}\<close> or \<open>{"type": t, "deviceId": d}\<close>.\<close>

definition frame :: "string \<Rightarrow> string option \<Rightarrow> json_object" where
  "frame t d = \<lparr>msg_type = Some t, deviceId = d, device = None, timestamp = None, members = []\<rparr>"

text \<open>A producer (connection 0) and a consumer without device filter (connection 1),
  both connected at time 1000.\<close>

definition producer_and_consumer :: server where
  "producer_and_consumer =
     fst (snd (on_connection 1 None None 1000
       (fst (snd (on_connection 0 (Some ''producer'') None 1000 startup)))))"

text \<open>A consumer (connection 0) connected with \<open>deviceId=d1\<close> at time 1000.\<close>

definition consumer_of_d1 :: server where
  "consumer_of_d1 = fst (snd (on_connection 0 None (Some ''d1'') 1000 startup))"

text \<open>Two consumers without device filter, connected at time 1000; the socket of
  connection 0 has gone to CLOSING since.\<close>

definition closing_and_open :: server where
  "closing_and_open =
     (let s = fst (snd (on_connection 1 None None 1000
                (fst (snd (on_connection 0 None None 1000 startup)))))
      in s\<lparr>sockets := (sockets s)(0 := (sockets s 0)\<lparr>readyState := 2\<rparr>)\<rparr>)"

text \<open>A producer (connection 0) connected at time 1000 that sent
  \<open>{"type": "subscribe", "deviceId": "d1"}\<close> at time 2000.\<close>

definition subscribed_producer :: server where
  "subscribed_producer =
     fst (snd (on_message 0 (Json_text (Json_object (frame ''subscribe'' (Some ''d1'')))) 2000
       (fst (snd (on_connection 0 (Some ''producer'') None 1000 startup)))))"


subsection \<open>The recipients of a telemetry event, as specified\<close>

text \<open>
  The open members of the device's subscriber Set, then the open consumers that are in
  no subscriber Set.
\<close>

definition telemetry_recipients :: "string \<Rightarrow> server \<Rightarrow> conn list" where
  "telemetry_recipients D s =
     filter (\<lambda>client. readyState (sockets s client) = 1)
       (case map_of (deviceSubscriptions s) D of None \<Rightarrow> [] | Some deviceClients \<Rightarrow> deviceClients) @
     filter (\<lambda>client. \<not> isSubscribedToSpecificDevice s client \<and> readyState (sockets s client) = 1)
       (consumers s)"

subsection \<open>Roles of subscribers, reachable states\<close>

text \<open>Every member of every subscriber Set is in \<open>consumers\<close> and not in \<open>producers\<close>.\<close>

definition subscribers_are_consumers :: "server \<Rightarrow> bool" where
  "subscribers_are_consumers s =
     list_all (\<lambda>p. list_all (\<lambda>c. c \<in> set (consumers s) \<and> c \<notin> set (producers s)) (snd p))
       (deviceSubscriptions s)"

text \<open>
  The states the server can be in, for a given binding of \<open>WebSocket\<close>: it starts with
  the empty registry; the library hands a new socket, one the registry does not hold, to
  the connection handler; a registered socket delivers frames and pongs; a socket
  closes; the timer fires; the library changes a socket's \<open>readyState\<close>. An exception
  that leaves the connection handler or the timer callback is not caught anywhere, so
  only their normal completions continue the run.
\<close>

inductive reachable :: "nat option \<Rightarrow> server \<Rightarrow> bool" for WebSocket_OPEN :: "nat option" where
  started: "reachable WebSocket_OPEN startup"
| connected:
    "reachable WebSocket_OPEN s \<Longrightarrow> ws \<notin> set (consumers s) \<Longrightarrow> ws \<notin> set (producers s) \<Longrightarrow>
     \<not> isSubscribedToSpecificDevice s ws \<Longrightarrow>
     on_connection ws clientType_param deviceId_param now s = (Normal (), s', es) \<Longrightarrow>
     reachable WebSocket_OPEN s'"
| received:
    "reachable WebSocket_OPEN s \<Longrightarrow> ws \<in> set (consumers s) \<union> set (producers s) \<Longrightarrow>
     on_message ws message now s = (r, s', es) \<Longrightarrow>
     reachable WebSocket_OPEN s'"
| ponged:
    "reachable WebSocket_OPEN s \<Longrightarrow> ws \<in> set (consumers s) \<union> set (producers s) \<Longrightarrow>
     reachable WebSocket_OPEN (on_pong ws now s)"
| closed:
    "reachable WebSocket_OPEN s \<Longrightarrow> reachable WebSocket_OPEN (on_close ws s)"
| ticked:
    "reachable WebSocket_OPEN s \<Longrightarrow> heartbeat_tick WebSocket_OPEN now s = (Normal (), s', es) \<Longrightarrow>
     reachable WebSocket_OPEN s'"
| readyState_changed:
    "reachable WebSocket_OPEN s \<Longrightarrow>
     reachable WebSocket_OPEN (s\<lparr>sockets := (sockets s)(ws := (sockets s ws)\<lparr>readyState := k\<rparr>)\<rparr>)"

text \<open>No own property of the subscription object has a name that \<open>Object.prototype\<close> defines.\<close>

definition no_inherited_names :: "subscriptions \<Rightarrow> bool" where
  "no_inherited_names obj = list_all (\<lambda>p. fst p \<notin> set Object_prototype_names) obj"

section \<open>Values of the concrete runs\<close>

lemma consumer_of_d1_simps:
  "consumers consumer_of_d1 = [0]" "producers consumer_of_d1 = []"
  "deviceSubscriptions consumer_of_d1 = [(''d1'', [0])]"
  "sockets consumer_of_d1 ws = \<lparr>readyState = 1, lastActivity = (if ws = 0 then 1000 else 0), isAlive = True\<rparr>"
  by (simp_all add: consumer_of_d1_def on_connection_def startup_def truthy_def Let_def
        add_subscription_def get_property_def Object_prototype_names_def set_add_def)

lemma producer_and_consumer_simps:
  "consumers producer_and_consumer = [1]" "producers producer_and_consumer = [0]"
  "deviceSubscriptions producer_and_consumer = []"
  "sockets producer_and_consumer ws =
     \<lparr>readyState = 1, lastActivity = (if ws = 0 \<or> ws = 1 then 1000 else 0), isAlive = True\<rparr>"
  by (simp_all add: producer_and_consumer_def on_connection_def startup_def truthy_def Let_def
        set_add_def)

lemma subscribed_producer_simps:
  "consumers subscribed_producer = []" "producers subscribed_producer = [0]"
  "deviceSubscriptions subscribed_producer = [(''d1'', [0])]"
  "sockets subscribed_producer ws =
     \<lparr>readyState = 1, lastActivity = (if ws = 0 then 2000 else 0), isAlive = True\<rparr>"
  by (simp_all add: subscribed_producer_def on_message_def message_try_def JSON_parse_def touch_def
        frame_def on_connection_def startup_def truthy_def Let_def
        add_subscription_def get_property_def Object_prototype_names_def set_add_def)

lemma closing_and_open_simps:
  "consumers closing_and_open = [0, 1]" "producers closing_and_open = []"
  "deviceSubscriptions closing_and_open = []"
  "readyState (sockets closing_and_open ws) = (if ws = 0 then 2 else 1)"
  by (simp_all add: closing_and_open_def on_connection_def startup_def truthy_def Let_def
        set_add_def)


text \<open>Both are states of a run of the server, whatever the runtime binds.\<close>

lemma producer_and_consumer_reachable: "reachable W producer_and_consumer"
proof -
  let ?s1 = "fst (snd (on_connection 0 (Some ''producer'') None 1000 startup))"
  have c1: "on_connection 0 (Some ''producer'') None 1000 startup =
             (Normal (), ?s1, [Send 0 (Connection ''producer'' (ISO 1000))])"
    by (simp add: on_connection_def truthy_def Let_def)
  have r1: "reachable W ?s1"
    by (rule reachable.connected[OF reachable.started _ _ _ c1])
       (simp_all add: startup_def isSubscribedToSpecificDevice_def)
  have c2: "on_connection 1 None None 1000 ?s1 =
             (Normal (), producer_and_consumer, [Send 1 (Connection ''consumer'' (ISO 1000))])"
    by (simp add: producer_and_consumer_def on_connection_def truthy_def Let_def)
  show ?thesis
    by (rule reachable.connected[OF r1 _ _ _ c2])
       (simp_all add: on_connection_def truthy_def Let_def set_add_def startup_def
          isSubscribedToSpecificDevice_def)
qed


section \<open>Sets and the subscription object\<close>

lemma set_add_distinct: "distinct xs \<Longrightarrow> distinct (set_add ws xs)"
  by (simp add: set_add_def)

lemma wf_subscriptions_iff:
  "wf_subscriptions obj \<longleftrightarrow> distinct (map fst obj) \<and> (\<forall>p \<in> set obj. distinct (snd p))"
  by (simp add: wf_subscriptions_def list_all_iff)

lemma isSubscribed_iff:
  "isSubscribedToSpecificDevice s c \<longleftrightarrow> (\<exists>p \<in> set (deviceSubscriptions s). c \<in> set (snd p))"
  by (auto simp: isSubscribedToSpecificDevice_def list_ex_iff set_has_def)

lemma subscriber_is_subscribed:
  "map_of (deviceSubscriptions s) D = Some xs \<Longrightarrow> c \<in> set xs \<Longrightarrow> isSubscribedToSpecificDevice s c"
  by (auto simp: isSubscribedToSpecificDevice_def list_ex_iff set_has_def dest!: map_of_SomeD
           intro!: bexI[where x="(D, xs)"])

lemma wf_subscribers_distinct:
  "wf_server s \<Longrightarrow> map_of (deviceSubscriptions s) D = Some xs \<Longrightarrow> distinct xs"
  by (auto simp: wf_server_def wf_subscriptions_def list_all_iff dest!: map_of_SomeD)

lemma update_entries: "set (AList.update k v al) \<subseteq> insert (k, v) (set al)"
  by (induction al) auto

lemma add_subscription_entries:
  assumes "add_subscription d ws obj = Normal obj'" and "p \<in> set obj'"
  shows "p \<in> set obj \<or> (\<exists>xs. p = (d, set_add ws xs) \<and> (xs = [] \<or> (d, xs) \<in> set obj))"
proof (cases "get_property obj d")
  case Undefined
  with assms show ?thesis by (auto simp: add_subscription_def)
next
  case (Subscribers xs)
  then have "map_of obj d = Some xs"
    by (auto simp: get_property_def split: option.splits if_splits)
  then have "(d, xs) \<in> set obj" by (rule map_of_SomeD)
  moreover from Subscribers assms have "p \<in> insert (d, set_add ws xs) (set obj)"
    using update_entries[of d "set_add ws xs" obj] by (auto simp: add_subscription_def)
  ultimately show ?thesis by auto
next
  case Inherited
  with assms show ?thesis by (simp add: add_subscription_def)
qed

lemma add_subscription_keys:
  assumes "add_subscription d ws obj = Normal obj'" and "distinct (map fst obj)"
  shows "distinct (map fst obj')"
proof (cases "get_property obj d")
  case Undefined
  then have "map_of obj d = None" by (auto simp: get_property_def split: option.splits)
  then have "d \<notin> fst ` set obj" by (simp add: map_of_eq_None_iff)
  with Undefined assms show ?thesis by (auto simp: add_subscription_def)
next
  case (Subscribers xs)
  with assms show ?thesis by (auto simp: add_subscription_def intro: distinct_update)
next
  case Inherited
  with assms show ?thesis by (simp add: add_subscription_def)
qed

lemma add_subscription_wf:
  assumes "add_subscription d ws obj = Normal obj'" and "wf_subscriptions obj"
  shows "wf_subscriptions obj'"
  unfolding wf_subscriptions_iff
proof (intro conjI ballI)
  show "distinct (map fst obj')"
    using assms by (auto simp: wf_subscriptions_iff intro: add_subscription_keys)
next
  fix p
  assume "p \<in> set obj'"
  with assms(1) consider "p \<in> set obj"
    | xs where "p = (d, set_add ws xs)" "xs = [] \<or> (d, xs) \<in> set obj"
    using add_subscription_entries by blast
  then show "distinct (snd p)"
  proof cases
    case 1
    with assms(2) show ?thesis by (simp add: wf_subscriptions_iff)
  next
    case 2
    then have "distinct xs" using assms(2) by (auto simp: wf_subscriptions_iff)
    with 2 show ?thesis by (simp add: set_add_distinct)
  qed
qed

lemma add_subscription_lookup:
  assumes "d \<notin> set Object_prototype_names"
  shows "\<exists>obj'. add_subscription d ws obj = Normal obj' \<and>
           map_of obj' = (map_of obj)(d \<mapsto>
             set_add ws (case map_of obj d of None \<Rightarrow> [] | Some deviceClients \<Rightarrow> deviceClients))"
proof (cases "map_of obj d")
  case None
  then have "map_of (obj @ [(d, set_add ws [])]) = (map_of obj)(d \<mapsto> set_add ws [])"
    by (auto simp: map_add_def fun_eq_iff split: option.splits)
  with None assms show ?thesis by (simp add: add_subscription_def get_property_def)
next
  case (Some xs)
  then show ?thesis by (simp add: add_subscription_def get_property_def update_conv')
qed

lemma delete_everywhere_keys: "map fst (delete_everywhere ws obj) = map fst obj"
  by (simp add: delete_everywhere_def comp_def)

lemma delete_everywhere_members:
  "p' \<in> set (delete_everywhere ws obj) \<Longrightarrow>
     \<exists>p \<in> set obj. fst p' = fst p \<and> set (snd p') = set (snd p) - {ws}"
  by (force simp: delete_everywhere_def set_delete_def)

lemma delete_everywhere_wf:
  assumes "wf_subscriptions obj"
  shows "wf_subscriptions (delete_everywhere ws obj)"
  unfolding wf_subscriptions_iff
proof (intro conjI ballI)
  show "distinct (map fst (delete_everywhere ws obj))"
    using assms by (simp add: wf_subscriptions_iff delete_everywhere_keys)
next
  fix p
  assume "p \<in> set (delete_everywhere ws obj)"
  with assms show "distinct (snd p)"
    by (auto simp: wf_subscriptions_iff delete_everywhere_def set_delete_def distinct_removeAll)
qed

lemma cleanup_empty_subset: "set (cleanup_empty ks obj) \<subseteq> set obj"
proof (induction ks arbitrary: obj)
  case Nil
  show ?case by simp
next
  case (Cons k ks)
  have "set (cleanup_empty ks (AList.delete k obj)) \<subseteq> set obj"
    using Cons.IH[of "AList.delete k obj"] by (auto simp: AList.delete_eq)
  with Cons.IH[of obj] show ?case by (simp split: option.splits)
qed

lemma cleanup_empty_keys: "distinct (map fst obj) \<Longrightarrow> distinct (map fst (cleanup_empty ks obj))"
proof (induction ks arbitrary: obj)
  case Nil
  then show ?case by simp
next
  case (Cons k ks)
  have "distinct (map fst (AList.delete k obj))" using Cons.prems by (rule AList.distinct_delete)
  from Cons.IH[OF this] Cons.IH[OF Cons.prems] show ?case by (simp split: option.splits)
qed

lemma cleanup_empty_wf: "wf_subscriptions obj \<Longrightarrow> wf_subscriptions (cleanup_empty ks obj)"
  using cleanup_empty_subset[of ks obj] by (auto simp: wf_subscriptions_iff cleanup_empty_keys)

lemma cleanup_empty_keeps_members:
  assumes "distinct (map fst obj)" and "(k, xs) \<in> set (cleanup_empty ks obj)" and "k \<in> set ks"
  shows "xs \<noteq> []"
  using assms
proof (induction ks arbitrary: obj)
  case Nil
  then show ?case by simp
next
  case (Cons d rest)
  have in_obj: "(k, xs) \<in> set obj"
    using Cons.prems(2) cleanup_empty_subset by blast
  with Cons.prems(1) have look: "map_of obj k = Some xs" by simp
  show ?case
  proof (cases "map_of obj d")
    case None
    with look have "k \<noteq> d" by auto
    with Cons.prems(3) have "k \<in> set rest" by simp
    moreover from None Cons.prems(2) have "(k, xs) \<in> set (cleanup_empty rest obj)" by simp
    ultimately show ?thesis using Cons.IH[OF Cons.prems(1)] by blast
  next
    case (Some ys)
    show ?thesis
    proof (cases "ys = []")
      case True
      with Some Cons.prems(2) have mem: "(k, xs) \<in> set (cleanup_empty rest (AList.delete d obj))"
        by (simp add: set_size_def)
      then have "(k, xs) \<in> set (AList.delete d obj)"
        using cleanup_empty_subset by blast
      then have "k \<noteq> d" by (auto simp: AList.delete_eq)
      with Cons.prems(3) have "k \<in> set rest" by simp
      moreover have "distinct (map fst (AList.delete d obj))"
        using Cons.prems(1) by (rule AList.distinct_delete)
      ultimately show ?thesis using Cons.IH mem by blast
    next
      case False
      with Some Cons.prems(2) have mem: "(k, xs) \<in> set (cleanup_empty rest obj)"
        by (simp add: set_size_def)
      show ?thesis
      proof (cases "k = d")
        case True
        with look Some False show ?thesis by simp
      next
        case False
        with Cons.prems(3) have "k \<in> set rest" by simp
        then show ?thesis using Cons.IH[OF Cons.prems(1) mem] by blast
      qed
    qed
  qed
qed

lemma cleanup_all_keys:
  assumes "distinct (map fst obj)"
  shows "list_all (\<lambda>p. snd p \<noteq> []) (cleanup_empty (map fst obj) obj)"
proof -
  have "snd p \<noteq> []" if "p \<in> set (cleanup_empty (map fst obj) obj)" for p
  proof -
    from that have "p \<in> set obj" using cleanup_empty_subset by blast
    then have "fst p \<in> set (map fst obj)" by simp
    with assms that show ?thesis
      using cleanup_empty_keeps_members[of obj "fst p" "snd p" "map fst obj"] by simp
  qed
  then show ?thesis by (simp add: list_all_iff)
qed

lemma not_subscribed_after_cleanup:
  assumes "\<not> isSubscribedToSpecificDevice s c"
  shows "\<not> isSubscribedToSpecificDevice
           (s\<lparr>deviceSubscriptions := cleanup_empty ks (deviceSubscriptions s)\<rparr>) c"
  using assms cleanup_empty_subset[of ks "deviceSubscriptions s"]
  by (auto simp: isSubscribed_iff)

lemma no_inherited_names_iff:
  "no_inherited_names obj \<longleftrightarrow> (\<forall>p \<in> set obj. fst p \<notin> set Object_prototype_names)"
  by (simp add: no_inherited_names_def list_all_iff)

lemma no_inherited_names_lookup:
  "no_inherited_names obj \<Longrightarrow> D \<in> set Object_prototype_names \<Longrightarrow> get_property obj D = Inherited"
proof -
  assume a: "no_inherited_names obj" and b: "D \<in> set Object_prototype_names"
  have "map_of obj D = None"
  proof (rule ccontr)
    assume "map_of obj D \<noteq> None"
    then obtain xs where "map_of obj D = Some xs" by auto
    then have "(D, xs) \<in> set obj" by (rule map_of_SomeD)
    with a b show False by (auto simp: no_inherited_names_iff)
  qed
  with b show ?thesis by (simp add: get_property_def)
qed

lemma add_subscription_no_inherited:
  assumes "add_subscription d ws obj = Normal obj'" and "no_inherited_names obj"
  shows "no_inherited_names obj'"
  unfolding no_inherited_names_iff
proof
  fix p
  assume "p \<in> set obj'"
  with assms(1) consider "p \<in> set obj"
    | xs where "p = (d, set_add ws xs)" "xs = [] \<or> (d, xs) \<in> set obj"
    using add_subscription_entries by blast
  then show "fst p \<notin> set Object_prototype_names"
  proof cases
    case 1
    with assms(2) show ?thesis by (simp add: no_inherited_names_iff)
  next
    case 2
    have "get_property obj d \<noteq> Inherited"
      using assms(1) by (auto simp: add_subscription_def)
    with assms(2) have "d \<notin> set Object_prototype_names"
      using no_inherited_names_lookup by blast
    with 2 show ?thesis by simp
  qed
qed

lemma delete_everywhere_no_inherited:
  "no_inherited_names obj \<Longrightarrow> no_inherited_names (delete_everywhere ws obj)"
  by (auto simp: no_inherited_names_iff delete_everywhere_def)

lemma cleanup_empty_no_inherited:
  "no_inherited_names obj \<Longrightarrow> no_inherited_names (cleanup_empty ks obj)"
  using cleanup_empty_subset[of ks obj] by (auto simp: no_inherited_names_iff)

section \<open>Malformed frames\<close>

text \<open>
  C5. A frame that \<open>JSON.parse\<close> rejects is logged by the \<open>catch\<close> and dropped: the
  handler completes normally, the whole state (registry, subscriptions and every
  socket, \<open>lastActivity\<close> included) is the state before, and the only call made is the
  one on \<open>console.error\<close>; in particular the socket is neither closed nor terminated.
\<close>

theorem malformed_frame_dropped:
  "on_message ws Not_json now s = (Normal (), s, [Console_error SyntaxError])"
  by (simp add: on_message_def message_try_def JSON_parse_def)

section \<open>Frames that parse\<close>

text \<open>
  C10. A frame of type \<open>subscribe\<close> whose \<open>deviceId\<close> is absent (or empty) leaves the
  registry and the subscriptions as they were, sends nothing, logs no error and
  completes normally; the only change is the sender's \<open>lastActivity\<close>. And whatever a
  frame parses to (any type, known or not, \<open>null\<close> included), the sender's
  \<open>lastActivity\<close> is the time of the frame afterwards.
\<close>

theorem subscribe_without_deviceId_ignored:
  "(msg_type data = Some ''subscribe'' \<and> \<not> truthy (deviceId data) \<longrightarrow>
      on_message ws (Json_text (Json_object data)) now s =
        (Normal (), s\<lparr>sockets := (sockets s)(ws := (sockets s ws)\<lparr>lastActivity := now\<rparr>)\<rparr>, [])) \<and>
   lastActivity (sockets (fst (snd (on_message ws (Json_text j) now s))) ws) = now"
proof
  show "msg_type data = Some ''subscribe'' \<and> \<not> truthy (deviceId data) \<longrightarrow>
      on_message ws (Json_text (Json_object data)) now s =
        (Normal (), s\<lparr>sockets := (sockets s)(ws := (sockets s ws)\<lparr>lastActivity := now\<rparr>)\<rparr>, [])"
    by (simp add: on_message_def message_try_def JSON_parse_def touch_def)
next
  have "sockets (fst (snd (message_try ws (Json_text j) now s))) = sockets (touch ws now s)"
    by (cases j)
       (auto simp: message_try_def JSON_parse_def Let_def split: completion.splits prod.splits)
  then show "lastActivity (sockets (fst (snd (on_message ws (Json_text j) now s))) ws) = now"
    by (auto simp: on_message_def touch_def split: completion.splits prod.splits)
qed

theorem subscribe_without_deviceId_ignored_witness:
  "on_message 0 (Json_text (Json_object (frame ''subscribe'' None))) 5000 startup =
     (Normal (),
      startup\<lparr>sockets := (sockets startup)(0 := (sockets startup 0)\<lparr>lastActivity := 5000\<rparr>)\<rparr>, []) \<and>
   lastActivity (sockets (fst (snd (on_message 0 (Json_text Json_null) 5000 startup))) 0) = 5000"
  using subscribe_without_deviceId_ignored [of "frame ''subscribe'' None" 0 5000 startup Json_null]
  by (simp add: frame_def truthy_def)

section \<open>Alarms\<close>

lemma notify_consumers_eq:
  "notify_consumers s m cs =
     map (\<lambda>client. Send client m) (filter (\<lambda>client. readyState (sockets s client) = 1) cs)"
  by (induction cs) simp_all

text \<open>
  C6. Whatever the subscription object holds, \<open>broadcastAlarm\<close> makes exactly one
  \<open>send\<close> call, with the alarm frame, for each member of \<open>consumers\<close> whose socket is
  OPEN, in the order of the Set, and does nothing else.
\<close>

theorem alarm_reaches_every_open_consumer:
  "broadcastAlarm data now (s\<lparr>deviceSubscriptions := obj\<rparr>) =
     map (\<lambda>client. Send client (alarm_message data now))
       (filter (\<lambda>client. readyState (sockets s client) = 1) (consumers s))"
  by (simp add: broadcastAlarm_def notify_consumers_eq)

section \<open>Telemetry fan-out\<close>

lemma notify_subscribers_eq:
  "notify_subscribers s m cs k =
     (k + length (filter (\<lambda>client. readyState (sockets s client) = 1) cs),
      map (\<lambda>client. Send client m) (filter (\<lambda>client. readyState (sockets s client) = 1) cs))"
  by (induction cs arbitrary: k) simp_all

lemma notify_unsubscribed_eq:
  "notify_unsubscribed s m cs k =
     (k + length (filter (\<lambda>client. \<not> isSubscribedToSpecificDevice s client \<and>
                           readyState (sockets s client) = 1) cs),
      map (\<lambda>client. Send client m)
        (filter (\<lambda>client. \<not> isSubscribedToSpecificDevice s client \<and>
                           readyState (sockets s client) = 1) cs))"
  by (induction cs arbitrary: k) simp_all

lemma broadcastTelemetry_ordinary_device:
  assumes "target_device data = Some D" and "D \<noteq> []" and "D \<notin> set Object_prototype_names"
  shows "broadcastTelemetry data now s =
           (Normal (length (telemetry_recipients D s)),
            map (\<lambda>client. Send client (telemetry_message data now)) (telemetry_recipients D s))"
  using assms
  by (simp add: broadcastTelemetry_def get_property_def telemetry_recipients_def
        notify_subscribers_eq notify_unsubscribed_eq Let_def split: option.splits)

lemma count_list_Send:
  "count_list (map (\<lambda>client. Send client m) cs) (Send c m) = count_list cs c"
  by (induction cs) simp_all

lemma count_list_distinct: "distinct cs \<Longrightarrow> count_list cs c = (if c \<in> set cs then 1 else 0)"
  by (induction cs) auto

lemma telemetry_recipients_count:
  assumes "wf_server s"
  shows "count_list (telemetry_recipients D s) c =
           (if readyState (sockets s c) = 1 \<and>
               ((\<exists>xs. map_of (deviceSubscriptions s) D = Some xs \<and> c \<in> set xs) \<or>
                (c \<in> set (consumers s) \<and> \<not> isSubscribedToSpecificDevice s c))
            then 1 else 0)"
proof (cases "map_of (deviceSubscriptions s) D")
  case None
  have "distinct (consumers s)" using assms by (simp add: wf_server_def)
  then show ?thesis using None
    by (simp add: telemetry_recipients_def count_list_distinct)
next
  case (Some xs)
  have d1: "distinct (consumers s)" using assms by (simp add: wf_server_def)
  have d2: "distinct xs" using assms Some by (rule wf_subscribers_distinct)
  have "c \<in> set xs \<Longrightarrow> isSubscribedToSpecificDevice s c"
    using Some by (rule subscriber_is_subscribed)
  then show ?thesis using Some d1 d2
    by (auto simp: telemetry_recipients_def count_list_distinct)
qed

text \<open>
  For a device identifier that is not a name inherited from \<open>Object.prototype\<close>, the
  calls of \<open>broadcastTelemetry\<close> are one \<open>send\<close> of the event per specified recipient,
  and the count returned is their number. In a well-formed state a connection is sent
  the event once when its socket is OPEN and it is in the device's subscriber Set or is
  a consumer in no subscriber Set, and not at all otherwise; in particular a consumer
  that is only in another device's Set gets nothing.
\<close>

lemma telemetry_delivery_ordinary_device:
  assumes "wf_server s" and "target_device data = Some D" and "D \<noteq> []"
    and "D \<notin> set Object_prototype_names"
  shows "fst (broadcastTelemetry data now s) = Normal (length (snd (broadcastTelemetry data now s)))"
    and "count_list (snd (broadcastTelemetry data now s)) (Send c (telemetry_message data now)) =
           (if readyState (sockets s c) = 1 \<and>
               ((\<exists>xs. map_of (deviceSubscriptions s) D = Some xs \<and> c \<in> set xs) \<or>
                (c \<in> set (consumers s) \<and> \<not> isSubscribedToSpecificDevice s c))
            then 1 else 0)"
  using assms
  by (simp_all add: broadcastTelemetry_ordinary_device count_list_Send telemetry_recipients_count)

text \<open>
  For every event and every state, a \<open>send\<close> goes to a socket that is OPEN, and a count
  that is returned is the number of sends.
\<close>

lemma telemetry_sends_only_to_open:
  "Send c m \<in> set (snd (broadcastTelemetry data now s)) \<Longrightarrow> readyState (sockets s c) = 1"
  by (auto simp: broadcastTelemetry_def notify_subscribers_eq notify_unsubscribed_eq Let_def
           split: property.splits option.splits if_splits)

lemma telemetry_count_is_number_of_sends:
  "fst (broadcastTelemetry data now s) = Normal n \<Longrightarrow> n = length (snd (broadcastTelemetry data now s))"
  by (auto simp: broadcastTelemetry_def notify_subscribers_eq notify_unsubscribed_eq Let_def
           split: property.splits option.splits if_splits)

text \<open>
  C1. A telemetry event for a device is to be sent once to every open consumer in the
  device's subscriber Set, once to every open consumer in no subscriber Set, and not to
  a consumer that is only in another device's Set. The code does so unless the device
  identifier is a name that \<open>Object.prototype\<close> defines. With one open consumer
  (connection 1) in no subscriber Set and no subscriptions at all, a telemetry event for
  device \<open>constructor\<close> makes \<open>broadcastTelemetry\<close> throw a TypeError before any
  \<open>send\<close>: the consumer receives nothing. When the event arrives as a frame, the
  handler's \<open>catch\<close> logs the error and that is all that happens.
\<close>

theorem telemetry_for_inherited_name_not_delivered:
  "consumers producer_and_consumer = [1] \<and>
   deviceSubscriptions producer_and_consumer = [] \<and>
   readyState (sockets producer_and_consumer 1) = 1 \<and>
   target_device (frame ''telemetry'' (Some ''constructor'')) = Some ''constructor'' \<and>
   broadcastTelemetry (frame ''telemetry'' (Some ''constructor'')) 2000 producer_and_consumer =
     (Throw TypeError, []) \<and>
   snd (snd (on_message 0 (Json_text (Json_object (frame ''telemetry'' (Some ''constructor'')))) 2000
      producer_and_consumer)) = [Console_error TypeError]"
  by (simp add: producer_and_consumer_simps broadcastTelemetry_def target_device_def frame_def
        truthy_def get_property_def Object_prototype_names_def on_message_def message_try_def
        JSON_parse_def touch_def Let_def)

text \<open>
  C9. \<open>broadcastTelemetry\<close> is to skip a recipient whose socket is not OPEN, without
  an error and without counting it, and to return the number of deliveries. With
  connection 0 CLOSING and connection 1 OPEN, an event for \<open>d1\<close> returns 1 after one
  send to connection 1. But the function does not return for every event: for device
  \<open>toString\<close>, in the same state, it throws a TypeError and returns no count.
\<close>

theorem telemetry_count_not_returned:
  "broadcastTelemetry (frame ''telemetry'' (Some ''toString'')) 2000 closing_and_open =
     (Throw TypeError, []) \<and>
   broadcastTelemetry (frame ''telemetry'' (Some ''d1'')) 2000 closing_and_open =
     (Normal 1, [Send 1 (telemetry_message (frame ''telemetry'' (Some ''d1'')) 2000)])"
  by (simp add: closing_and_open_simps broadcastTelemetry_def target_device_def frame_def
        truthy_def get_property_def Object_prototype_names_def isSubscribedToSpecificDevice_def
        Let_def)

section \<open>Subscribe frames\<close>

text \<open>
  A connection in the subscriber Set of one device that sends a \<open>subscribe\<close> frame for
  another device, whose name is not inherited from \<open>Object.prototype\<close>, is confirmed,
  joins the second Set and stays in the first.
\<close>

lemma subscribe_second_device:
  assumes "msg_type data = Some ''subscribe''" and "deviceId data = Some d2" and "d2 \<noteq> []"
    and "d2 \<notin> set Object_prototype_names"
    and "map_of (deviceSubscriptions s) d1 = Some xs" and "ws \<in> set xs" and "d1 \<noteq> d2"
  shows "\<exists>s'. on_message ws (Json_text (Json_object data)) now s =
                 (Normal (), s', [Send ws (Subscription_confirmed d2 (ISO now))]) \<and>
               map_of (deviceSubscriptions s') d1 = Some xs \<and>
               (\<exists>ys. map_of (deviceSubscriptions s') d2 = Some ys \<and> ws \<in> set ys)"
proof -
  obtain obj' where add: "add_subscription d2 ws (deviceSubscriptions s) = Normal obj'"
    and look: "map_of obj' = (map_of (deviceSubscriptions s))(d2 \<mapsto>
             set_add ws (case map_of (deviceSubscriptions s) d2 of None \<Rightarrow> [] | Some zs \<Rightarrow> zs))"
    using add_subscription_lookup[OF assms(4)] by blast
  have "on_message ws (Json_text (Json_object data)) now s =
          (Normal (), (touch ws now s)\<lparr>deviceSubscriptions := obj'\<rparr>,
           [Send ws (Subscription_confirmed d2 (ISO now))])"
    using assms(1,2,3) add
    by (simp add: on_message_def message_try_def JSON_parse_def truthy_def touch_def Let_def)
  moreover have "map_of obj' d1 = Some xs" using look assms(5,7) by simp
  moreover have "\<exists>ys. map_of obj' d2 = Some ys \<and> ws \<in> set ys"
    using look by (simp add: set_add_def)
  ultimately show ?thesis by simp
qed

text \<open>
  C8. A connection in the subscriber Set of \<open>d1\<close> that sends a \<open>subscribe\<close> frame for
  another device \<open>d2\<close> is to end up in both Sets and to be sent a
  \<open>subscription_confirmed\<close> frame. The code does not do so when \<open>d2\<close> is a name that
  \<open>Object.prototype\<close> defines. Connection 0 is in the subscriber Set of \<open>d1\<close> and sends
  a \<open>subscribe\<close> frame for \<open>constructor\<close>: the \<open>add\<close> call throws, the \<open>catch\<close> logs
  the TypeError, no \<open>subscription_confirmed\<close> frame is sent, and the subscriptions are
  as before, with no Set for \<open>constructor\<close>.
\<close>

theorem subscribe_to_inherited_name_fails:
  "deviceSubscriptions consumer_of_d1 = [(''d1'', [0])] \<and>
   on_message 0 (Json_text (Json_object (frame ''subscribe'' (Some ''constructor'')))) 2000
     consumer_of_d1 =
     (Normal (), touch 0 2000 consumer_of_d1, [Console_error TypeError]) \<and>
   deviceSubscriptions (touch 0 2000 consumer_of_d1) = [(''d1'', [0])]"
  by (simp add: consumer_of_d1_simps on_message_def message_try_def JSON_parse_def touch_def
        frame_def truthy_def add_subscription_def get_property_def Object_prototype_names_def
        Let_def)

section \<open>The role of subscribers\<close>

text \<open>
  Connecting a new socket, a frame from a consumer, closing, and the heartbeat keep
  every subscriber a consumer.
\<close>

lemma subscribers_are_consumers_iff:
  "subscribers_are_consumers s \<longleftrightarrow>
     (\<forall>p \<in> set (deviceSubscriptions s). \<forall>c \<in> set (snd p).
        c \<in> set (consumers s) \<and> c \<notin> set (producers s))"
  by (simp add: subscribers_are_consumers_def list_all_iff)

lemma add_subscription_keeps_invariant:
  assumes "subscribers_are_consumers s" and "ws \<in> set (consumers s)" and "ws \<notin> set (producers s)"
    and "add_subscription d ws (deviceSubscriptions s) = Normal obj'"
  shows "subscribers_are_consumers (s\<lparr>deviceSubscriptions := obj'\<rparr>)"
  unfolding subscribers_are_consumers_iff
proof (intro ballI)
  fix p c
  assume p: "p \<in> set (deviceSubscriptions (s\<lparr>deviceSubscriptions := obj'\<rparr>))" and c: "c \<in> set (snd p)"
  from p have "p \<in> set obj'" by simp
  with assms(4) consider "p \<in> set (deviceSubscriptions s)"
    | xs where "p = (d, set_add ws xs)" "xs = [] \<or> (d, xs) \<in> set (deviceSubscriptions s)"
    using add_subscription_entries by blast
  then have "c \<in> set (consumers s) \<and> c \<notin> set (producers s)"
  proof cases
    case 1
    with assms(1) c show ?thesis by (auto simp: subscribers_are_consumers_iff)
  next
    case 2
    with c have "c = ws \<or> c \<in> set xs" by (auto simp: set_add_def split: if_splits)
    with 2 assms(1,2,3) show ?thesis by (fastforce simp: subscribers_are_consumers_iff)
  qed
  then show "c \<in> set (consumers (s\<lparr>deviceSubscriptions := obj'\<rparr>)) \<and>
         c \<notin> set (producers (s\<lparr>deviceSubscriptions := obj'\<rparr>))" by simp
qed

lemma touch_keeps_invariant:
  "subscribers_are_consumers (touch ws now s) = subscribers_are_consumers s"
  by (simp add: subscribers_are_consumers_def touch_def)

lemma message_from_consumer_keeps_invariant:
  assumes "subscribers_are_consumers s" and "ws \<in> set (consumers s)" and "ws \<notin> set (producers s)"
  shows "subscribers_are_consumers (fst (snd (on_message ws message now s)))"
proof -
  let ?s1 = "touch ws now s"
  have inv1: "subscribers_are_consumers ?s1" using assms(1) by (simp add: touch_keeps_invariant)
  have mem1: "ws \<in> set (consumers ?s1)" "ws \<notin> set (producers ?s1)"
    using assms(2,3) by (simp_all add: touch_def)
  have sub: "subscribers_are_consumers (?s1\<lparr>deviceSubscriptions := obj'\<rparr>)"
    if "add_subscription d ws (deviceSubscriptions ?s1) = Normal obj'" for d obj'
    using inv1 mem1 that by (rule add_subscription_keeps_invariant)
  have "subscribers_are_consumers (fst (snd (message_try ws message now s)))"
  proof (cases message)
    case Not_json
    with assms(1) show ?thesis by (simp add: message_try_def JSON_parse_def)
  next
    case (Json_text j)
    show ?thesis
    proof (cases j)
      case Json_null
      with Json_text inv1 show ?thesis by (simp add: message_try_def JSON_parse_def)
    next
      case Json_other
      with Json_text inv1 show ?thesis by (simp add: message_try_def JSON_parse_def)
    next
      case (Json_object data)
      with Json_text inv1 sub show ?thesis
        by (auto simp: message_try_def JSON_parse_def Let_def
                 split: completion.splits prod.splits)
    qed
  qed
  then show ?thesis
    by (auto simp: on_message_def split: completion.splits prod.splits)
qed

lemma connection_keeps_invariant:
  assumes "subscribers_are_consumers s" and "ws \<notin> set (consumers s)" and "ws \<notin> set (producers s)"
  shows "subscribers_are_consumers (fst (snd (on_connection ws clientType_param deviceId_param now s)))"
proof -
  let ?s1 = "s\<lparr>sockets := (sockets s)(ws := (sockets s ws)\<lparr>lastActivity := now, isAlive := True\<rparr>)\<rparr>"
  have unsub: "\<forall>p \<in> set (deviceSubscriptions s). ws \<notin> set (snd p)"
    using assms(1,2) by (auto simp: subscribers_are_consumers_iff)
  then have prod: "subscribers_are_consumers (?s1\<lparr>producers := set_add ws (producers ?s1)\<rparr>)"
    using assms(1) by (auto simp: subscribers_are_consumers_iff set_add_def)
  let ?s2 = "?s1\<lparr>consumers := set_add ws (consumers ?s1)\<rparr>"
  have inv2: "subscribers_are_consumers ?s2"
    using assms(1) by (auto simp: subscribers_are_consumers_iff set_add_def)
  have mem2: "ws \<in> set (consumers ?s2)" "ws \<notin> set (producers ?s2)"
    using assms(3) by (simp_all add: set_add_def)
  have sub: "subscribers_are_consumers (?s2\<lparr>deviceSubscriptions := obj'\<rparr>)"
    if "add_subscription d ws (deviceSubscriptions ?s2) = Normal obj'" for d obj'
    using inv2 mem2 that by (rule add_subscription_keeps_invariant)
  show ?thesis
    using prod inv2 sub
    by (auto simp: on_connection_def Let_def split: completion.splits)
qed

lemma close_keeps_invariant:
  assumes "subscribers_are_consumers s"
  shows "subscribers_are_consumers (on_close ws s)"
  unfolding subscribers_are_consumers_iff
proof (intro ballI)
  fix p' c
  assume p': "p' \<in> set (deviceSubscriptions (on_close ws s))" and c: "c \<in> set (snd p')"
  from p' have "p' \<in> set (delete_everywhere ws (deviceSubscriptions s))"
    using cleanup_empty_subset by (fastforce simp: on_close_def Let_def)
  then obtain p where "p \<in> set (deviceSubscriptions s)" and "set (snd p') = set (snd p) - {ws}"
    using delete_everywhere_members by blast
  with c assms have "c \<in> set (consumers s) \<and> c \<notin> set (producers s) \<and> c \<noteq> ws"
    by (auto simp: subscribers_are_consumers_iff)
  then show "c \<in> set (consumers (on_close ws s)) \<and> c \<notin> set (producers (on_close ws s))"
    by (simp add: on_close_def Let_def set_delete_def)
qed

section \<open>The heartbeat\<close>

lemma check_producers_frame:
  "sockets (fst (snd (check_producers W now cs s))) = sockets s \<and>
   consumers (fst (snd (check_producers W now cs s))) = consumers s \<and>
   deviceSubscriptions (fst (snd (check_producers W now cs s))) = deviceSubscriptions s"
  by (induction cs arbitrary: s) (auto simp: case_prod_unfold split: option.splits)

lemma check_consumers_frame:
  "sockets (fst (snd (check_consumers W now cs s))) = sockets s \<and>
   producers (fst (snd (check_consumers W now cs s))) = producers s"
  by (induction cs arbitrary: s) (auto simp: case_prod_unfold split: option.splits)

lemma check_consumers_keys:
  "map fst (deviceSubscriptions (fst (snd (check_consumers W now cs s)))) =
   map fst (deviceSubscriptions s)"
  by (induction cs arbitrary: s)
     (auto simp: case_prod_unfold delete_everywhere_keys split: option.splits)

lemma check_producers_normal: "fst (check_producers (Some k) now cs s) = Normal ()"
  by (induction cs arbitrary: s) (simp_all add: case_prod_unfold)

lemma check_consumers_normal: "fst (check_consumers (Some k) now cs s) = Normal ()"
  by (induction cs arbitrary: s) (simp_all add: case_prod_unfold)

lemma heartbeat_tick_bound:
  "heartbeat_tick (Some k) now s =
    (let r1 = check_producers (Some k) now (producers s) s;
         s1 = fst (snd r1);
         r2 = check_consumers (Some k) now (consumers s1) s1;
         s2 = fst (snd r2)
     in (Normal (),
         s2\<lparr>deviceSubscriptions :=
               cleanup_empty (map fst (deviceSubscriptions s2)) (deviceSubscriptions s2)\<rparr>,
         snd (snd r1) @ snd (snd r2)))"
proof -
  obtain r1 s1 es1 where p: "check_producers (Some k) now (producers s) s = (r1, s1, es1)"
    by (cases "check_producers (Some k) now (producers s) s") auto
  obtain r2 s2 es2 where c: "check_consumers (Some k) now (consumers s1) s1 = (r2, s2, es2)"
    by (cases "check_consumers (Some k) now (consumers s1) s1") auto
  from p have "r1 = Normal ()" using check_producers_normal[of k now "producers s" s] by simp
  moreover from c have "r2 = Normal ()" using check_consumers_normal[of k now "consumers s1" s1] by simp
  ultimately show ?thesis using p c by (simp add: heartbeat_tick_def Let_def)
qed

lemma heartbeat_tick_subscriptions:
  assumes "fst (heartbeat_tick W now s) = Normal ()"
  shows "\<exists>obj. map fst obj = map fst (deviceSubscriptions s) \<and>
           deviceSubscriptions (fst (snd (heartbeat_tick W now s))) = cleanup_empty (map fst obj) obj"
proof -
  obtain r1 s1 es1 where p: "check_producers W now (producers s) s = (r1, s1, es1)"
    by (cases "check_producers W now (producers s) s") auto
  obtain r2 s2 es2 where c: "check_consumers W now (consumers s1) s1 = (r2, s2, es2)"
    by (cases "check_consumers W now (consumers s1) s1") auto
  from assms p c have n: "r1 = Normal ()" "r2 = Normal ()"
    by (auto simp: heartbeat_tick_def split: completion.splits)
  have "deviceSubscriptions s1 = deviceSubscriptions s"
    using check_producers_frame[of W now "producers s" s] p by simp
  moreover have "map fst (deviceSubscriptions s2) = map fst (deviceSubscriptions s1)"
    using check_consumers_keys[of W now "consumers s1" s1] c by simp
  ultimately have "map fst (deviceSubscriptions s2) = map fst (deviceSubscriptions s)" by simp
  moreover have "deviceSubscriptions (fst (snd (heartbeat_tick W now s))) =
      cleanup_empty (map fst (deviceSubscriptions s2)) (deviceSubscriptions s2)"
    using p c n by (simp add: heartbeat_tick_def)
  ultimately show ?thesis by blast
qed

lemma check_producers_keeps_invariant:
  "subscribers_are_consumers s \<Longrightarrow>
   subscribers_are_consumers (fst (snd (check_producers W now cs s)))"
proof (induction cs arbitrary: s)
  case Nil
  then show ?case by simp
next
  case (Cons client rest)
  have "subscribers_are_consumers (s\<lparr>producers := set_delete client (producers s)\<rparr>)"
    using Cons.prems by (auto simp: subscribers_are_consumers_iff set_delete_def)
  from Cons.IH[OF this] Cons.IH[OF Cons.prems] Cons.prems show ?case
    by (cases W) (simp_all add: case_prod_unfold)
qed

lemma check_consumers_keeps_invariant:
  "subscribers_are_consumers s \<Longrightarrow>
   subscribers_are_consumers (fst (snd (check_consumers W now cs s)))"
proof (induction cs arbitrary: s)
  case Nil
  then show ?case by simp
next
  case (Cons client rest)
  have "subscribers_are_consumers
          (s\<lparr>consumers := set_delete client (consumers s),
             deviceSubscriptions := delete_everywhere client (deviceSubscriptions s)\<rparr>)"
    unfolding subscribers_are_consumers_iff
  proof (intro ballI)
    fix p' c
    assume "p' \<in> set (deviceSubscriptions
                 (s\<lparr>consumers := set_delete client (consumers s),
                    deviceSubscriptions := delete_everywhere client (deviceSubscriptions s)\<rparr>))"
      and c: "c \<in> set (snd p')"
    then obtain p where "p \<in> set (deviceSubscriptions s)" and "set (snd p') = set (snd p) - {client}"
      using delete_everywhere_members by fastforce
    with c Cons.prems have "c \<in> set (consumers s) \<and> c \<notin> set (producers s) \<and> c \<noteq> client"
      by (auto simp: subscribers_are_consumers_iff)
    then show "c \<in> set (consumers (s\<lparr>consumers := set_delete client (consumers s),
                    deviceSubscriptions := delete_everywhere client (deviceSubscriptions s)\<rparr>)) \<and>
               c \<notin> set (producers (s\<lparr>consumers := set_delete client (consumers s),
                    deviceSubscriptions := delete_everywhere client (deviceSubscriptions s)\<rparr>))"
      by (simp add: set_delete_def)
  qed
  from Cons.IH[OF this] Cons.IH[OF Cons.prems] Cons.prems show ?case
    by (cases W) (simp_all add: case_prod_unfold)
qed

lemma heartbeat_keeps_invariant:
  assumes "subscribers_are_consumers s"
  shows "subscribers_are_consumers (fst (snd (heartbeat_tick W now s)))"
proof -
  obtain r1 s1 es1 where p: "check_producers W now (producers s) s = (r1, s1, es1)"
    by (cases "check_producers W now (producers s) s") auto
  obtain r2 s2 es2 where c: "check_consumers W now (consumers s1) s1 = (r2, s2, es2)"
    by (cases "check_consumers W now (consumers s1) s1") auto
  have inv1: "subscribers_are_consumers s1"
    using check_producers_keeps_invariant[OF assms, of W now "producers s"] p by simp
  have inv2: "subscribers_are_consumers s2"
    using check_consumers_keeps_invariant[OF inv1, of W now "consumers s1"] c by simp
  have inv3: "subscribers_are_consumers
      (s2\<lparr>deviceSubscriptions :=
            cleanup_empty (map fst (deviceSubscriptions s2)) (deviceSubscriptions s2)\<rparr>)"
    using inv2 cleanup_empty_subset[of "map fst (deviceSubscriptions s2)" "deviceSubscriptions s2"]
    by (auto simp: subscribers_are_consumers_iff)
  show ?thesis
    using p c inv1 inv2 inv3
    by (cases r1; cases r2) (simp_all add: heartbeat_tick_def)
qed

lemma check_producers_pings:
  "client \<in> set cs \<Longrightarrow> now - lastActivity (sockets s client) \<le> 120000 \<Longrightarrow>
   readyState (sockets s client) = k \<Longrightarrow>
   Ping client \<in> set (snd (snd (check_producers (Some k) now cs s)))"
proof (induction cs arbitrary: s)
  case Nil
  then show ?case by simp
next
  case (Cons c cs)
  show ?case
  proof (cases "client = c")
    case True
    with Cons.prems show ?thesis by (simp add: case_prod_unfold)
  next
    case False
    with Cons.prems have "client \<in> set cs" by simp
    from Cons.IH[OF this] Cons.prems(2,3) show ?thesis
      by (simp add: case_prod_unfold)
  qed
qed

lemma check_consumers_pings:
  "client \<in> set cs \<Longrightarrow> now - lastActivity (sockets s client) \<le> 120000 \<Longrightarrow>
   readyState (sockets s client) = k \<Longrightarrow>
   Ping client \<in> set (snd (snd (check_consumers (Some k) now cs s)))"
proof (induction cs arbitrary: s)
  case Nil
  then show ?case by simp
next
  case (Cons c cs)
  show ?case
  proof (cases "client = c")
    case True
    with Cons.prems show ?thesis by (simp add: case_prod_unfold)
  next
    case False
    with Cons.prems have "client \<in> set cs" by simp
    from Cons.IH[OF this] Cons.prems(2,3) show ?thesis
      by (simp add: case_prod_unfold)
  qed
qed

text \<open>
  Were \<open>WebSocket\<close> bound with \<open>OPEN = 1\<close>, a tick would complete normally from every
  state, and every member of \<open>producers\<close> or \<open>consumers\<close> that is not over the deadline
  and whose socket is OPEN would get a \<open>ping\<close> call. The tick is one function of the
  state and the clock: it takes no reply as input, so it waits for none.
\<close>

lemma heartbeat_pings_when_WebSocket_bound:
  "fst (heartbeat_tick (Some 1) now s) = Normal () \<and>
   (\<forall>client \<in> set (producers s) \<union> set (consumers s).
      now - lastActivity (sockets s client) \<le> 120000 \<and> readyState (sockets s client) = 1 \<longrightarrow>
      Ping client \<in> set (snd (snd (heartbeat_tick (Some 1) now s))))"
proof (intro conjI ballI impI)
  show "fst (heartbeat_tick (Some 1) now s) = Normal ()"
    by (simp add: heartbeat_tick_bound Let_def)
next
  fix client
  assume mem: "client \<in> set (producers s) \<union> set (consumers s)"
    and live: "now - lastActivity (sockets s client) \<le> 120000 \<and> readyState (sockets s client) = 1"
  let ?s1 = "fst (snd (check_producers (Some 1) now (producers s) s))"
  from mem show "Ping client \<in> set (snd (snd (heartbeat_tick (Some 1) now s)))"
  proof
    assume "client \<in> set (producers s)"
    with live have "Ping client \<in> set (snd (snd (check_producers (Some 1) now (producers s) s)))"
      by (simp add: check_producers_pings)
    then show ?thesis by (simp add: heartbeat_tick_bound Let_def)
  next
    assume "client \<in> set (consumers s)"
    then have "client \<in> set (consumers ?s1)" by (simp add: check_producers_frame)
    moreover from live have "now - lastActivity (sockets ?s1 client) \<le> 120000"
      and "readyState (sockets ?s1 client) = 1" by (simp_all add: check_producers_frame)
    ultimately have "Ping client \<in> set (snd (snd (check_consumers (Some 1) now (consumers ?s1) ?s1)))"
      by (rule check_consumers_pings)
    then show ?thesis by (simp add: heartbeat_tick_bound Let_def)
  qed
qed

lemma heartbeat_pings_when_WebSocket_bound_example:
  "0 \<in> set (producers producer_and_consumer) \<union> set (consumers producer_and_consumer) \<and>
   1 \<in> set (producers producer_and_consumer) \<union> set (consumers producer_and_consumer) \<and>
   31000 - lastActivity (sockets producer_and_consumer 0) \<le> 120000 \<and>
   readyState (sockets producer_and_consumer 0) = 1 \<and>
   fst (heartbeat_tick (Some 1) 31000 producer_and_consumer) = Normal () \<and>
   Ping 0 \<in> set (snd (snd (heartbeat_tick (Some 1) 31000 producer_and_consumer))) \<and>
   Ping 1 \<in> set (snd (snd (heartbeat_tick (Some 1) 31000 producer_and_consumer)))"
  using heartbeat_pings_when_WebSocket_bound [of 31000 producer_and_consumer]
  by (simp add: producer_and_consumer_simps)

text \<open>
  C3. A tick is to ping every registered connection that is within the deadline and
  OPEN, and to complete for all connections without raising an error. server.js binds
  no \<open>WebSocket\<close> (line 5 imports \<open>WebSocketServer\<close> alone), so the comparison with
  \<open>WebSocket.OPEN\<close> at lines 245 and 263 throws a ReferenceError at the first connection
  that is not over the deadline. With a producer and a consumer connected at time
  1000, both OPEN, the tick at time 31000 raises that error in the producer loop and
  has called \<open>ping\<close> on neither connection.
\<close>

theorem heartbeat_raises_at_live_connection:
  "reachable None producer_and_consumer \<and>
   producers producer_and_consumer = [0] \<and>
   consumers producer_and_consumer = [1] \<and>
   31000 - lastActivity (sockets producer_and_consumer 0) \<le> 120000 \<and>
   readyState (sockets producer_and_consumer 0) = 1 \<and>
   31000 - lastActivity (sockets producer_and_consumer 1) \<le> 120000 \<and>
   readyState (sockets producer_and_consumer 1) = 1 \<and>
   heartbeat_tick None 31000 producer_and_consumer =
     (Throw ReferenceError, producer_and_consumer, [])"
  by (simp add: producer_and_consumer_reachable heartbeat_tick_def producer_and_consumer_simps)

section \<open>Idle connections\<close>

lemma check_consumers_stays_removed:
  "c \<notin> set (consumers s) \<Longrightarrow> \<not> isSubscribedToSpecificDevice s c \<Longrightarrow>
   c \<notin> set (consumers (fst (snd (check_consumers W now cs s)))) \<and>
   \<not> isSubscribedToSpecificDevice (fst (snd (check_consumers W now cs s))) c"
proof (induction cs arbitrary: s)
  case Nil
  then show ?case by simp
next
  case (Cons client rest)
  let ?s1 = "s\<lparr>consumers := set_delete client (consumers s),
               deviceSubscriptions := delete_everywhere client (deviceSubscriptions s)\<rparr>"
  have "c \<notin> set (consumers ?s1)" using Cons.prems(1) by (simp add: set_delete_def)
  moreover have "\<not> isSubscribedToSpecificDevice ?s1 c"
    using Cons.prems(2) by (fastforce simp: isSubscribed_iff dest: delete_everywhere_members)
  ultimately have removed: "c \<notin> set (consumers (fst (snd (check_consumers W now rest ?s1)))) \<and>
      \<not> isSubscribedToSpecificDevice (fst (snd (check_consumers W now rest ?s1))) c"
    by (rule Cons.IH)
  have kept: "c \<notin> set (consumers (fst (snd (check_consumers W now rest s)))) \<and>
      \<not> isSubscribedToSpecificDevice (fst (snd (check_consumers W now rest s))) c"
    using Cons.prems by (rule Cons.IH)
  show ?case
  proof (cases "now - lastActivity (sockets s client) > 120000")
    case True
    with removed show ?thesis by (simp add: case_prod_unfold)
  next
    case False
    with kept Cons.prems show ?thesis
      by (cases W) (simp_all add: case_prod_unfold)
  qed
qed

lemma check_consumers_removes_idle:
  "c \<in> set cs \<Longrightarrow> now - lastActivity (sockets s c) > 120000 \<Longrightarrow>
   Terminate c \<in> set (snd (snd (check_consumers (Some k) now cs s))) \<and>
   c \<notin> set (consumers (fst (snd (check_consumers (Some k) now cs s)))) \<and>
   \<not> isSubscribedToSpecificDevice (fst (snd (check_consumers (Some k) now cs s))) c"
proof (induction cs arbitrary: s)
  case Nil
  then show ?case by simp
next
  case (Cons client rest)
  let ?s1 = "s\<lparr>consumers := set_delete client (consumers s),
               deviceSubscriptions := delete_everywhere client (deviceSubscriptions s)\<rparr>"
  show ?case
  proof (cases "client = c")
    case True
    have "c \<notin> set (consumers ?s1)" using True by (simp add: set_delete_def)
    moreover have "\<not> isSubscribedToSpecificDevice ?s1 c"
      using True by (fastforce simp: isSubscribed_iff dest: delete_everywhere_members)
    ultimately have "c \<notin> set (consumers (fst (snd (check_consumers (Some k) now rest ?s1)))) \<and>
      \<not> isSubscribedToSpecificDevice (fst (snd (check_consumers (Some k) now rest ?s1))) c"
      by (rule check_consumers_stays_removed)
    with True Cons.prems(2) show ?thesis by (simp add: case_prod_unfold)
  next
    case False
    with Cons.prems(1) have mem: "c \<in> set rest" by simp
    have idle1: "now - lastActivity (sockets ?s1 c) > 120000" using Cons.prems(2) by simp
    from Cons.IH[OF mem idle1] Cons.IH[OF mem Cons.prems(2)] show ?thesis
      by (simp add: case_prod_unfold)
  qed
qed

lemma check_producers_stays_removed:
  "c \<notin> set (producers s) \<Longrightarrow> c \<notin> set (producers (fst (snd (check_producers W now cs s))))"
proof (induction cs arbitrary: s)
  case Nil
  then show ?case by simp
next
  case (Cons client rest)
  have "c \<notin> set (producers (s\<lparr>producers := set_delete client (producers s)\<rparr>))"
    using Cons.prems by (simp add: set_delete_def)
  from Cons.IH[OF this] Cons.IH[OF Cons.prems] Cons.prems show ?case
    by (cases W) (simp_all add: case_prod_unfold)
qed

lemma check_producers_removes_idle:
  "c \<in> set cs \<Longrightarrow> now - lastActivity (sockets s c) > 120000 \<Longrightarrow>
   Terminate c \<in> set (snd (snd (check_producers (Some k) now cs s))) \<and>
   c \<notin> set (producers (fst (snd (check_producers (Some k) now cs s))))"
proof (induction cs arbitrary: s)
  case Nil
  then show ?case by simp
next
  case (Cons client rest)
  let ?s1 = "s\<lparr>producers := set_delete client (producers s)\<rparr>"
  show ?case
  proof (cases "client = c")
    case True
    have "c \<notin> set (producers ?s1)" using True by (simp add: set_delete_def)
    then have "c \<notin> set (producers (fst (snd (check_producers (Some k) now rest ?s1))))"
      by (rule check_producers_stays_removed)
    with True Cons.prems(2) show ?thesis by (simp add: case_prod_unfold)
  next
    case False
    with Cons.prems(1) have mem: "c \<in> set rest" by simp
    have idle1: "now - lastActivity (sockets ?s1 c) > 120000" using Cons.prems(2) by simp
    from Cons.IH[OF mem idle1] Cons.IH[OF mem Cons.prems(2)] show ?thesis
      by (simp add: case_prod_unfold)
  qed
qed

text \<open>
  A tick terminates every connection that is over the deadline. An idle consumer is
  then in neither \<open>consumers\<close> nor any subscriber Set; an idle producer is no longer in
  \<open>producers\<close>.
\<close>

lemma heartbeat_removes_idle:
  assumes "now - lastActivity (sockets s c) > 120000"
  shows "c \<in> set (consumers s) \<Longrightarrow>
           Terminate c \<in> set (snd (snd (heartbeat_tick (Some k) now s))) \<and>
           c \<notin> set (consumers (fst (snd (heartbeat_tick (Some k) now s)))) \<and>
           \<not> isSubscribedToSpecificDevice (fst (snd (heartbeat_tick (Some k) now s))) c"
    and "c \<in> set (producers s) \<Longrightarrow>
           Terminate c \<in> set (snd (snd (heartbeat_tick (Some k) now s))) \<and>
           c \<notin> set (producers (fst (snd (heartbeat_tick (Some k) now s))))"
proof -
  let ?r1 = "check_producers (Some k) now (producers s) s"
  let ?s1 = "fst (snd ?r1)"
  let ?r2 = "check_consumers (Some k) now (consumers ?s1) ?s1"
  let ?s2 = "fst (snd ?r2)"
  {
    assume "c \<in> set (consumers s)"
    then have "c \<in> set (consumers ?s1)" by (simp add: check_producers_frame)
    moreover have "now - lastActivity (sockets ?s1 c) > 120000"
      using assms by (simp add: check_producers_frame)
    ultimately have "Terminate c \<in> set (snd (snd ?r2)) \<and> c \<notin> set (consumers ?s2) \<and>
        \<not> isSubscribedToSpecificDevice ?s2 c"
      by (rule check_consumers_removes_idle)
    then show "Terminate c \<in> set (snd (snd (heartbeat_tick (Some k) now s))) \<and>
           c \<notin> set (consumers (fst (snd (heartbeat_tick (Some k) now s)))) \<and>
           \<not> isSubscribedToSpecificDevice (fst (snd (heartbeat_tick (Some k) now s))) c"
      using not_subscribed_after_cleanup[of ?s2 c "map fst (deviceSubscriptions ?s2)"]
      by (simp add: heartbeat_tick_bound Let_def)
  }
  {
    assume "c \<in> set (producers s)"
    with assms have "Terminate c \<in> set (snd (snd ?r1)) \<and> c \<notin> set (producers ?s1)"
      by (simp add: check_producers_removes_idle)
    then show "Terminate c \<in> set (snd (snd (heartbeat_tick (Some k) now s))) \<and>
           c \<notin> set (producers (fst (snd (heartbeat_tick (Some k) now s))))"
      by (simp add: heartbeat_tick_bound Let_def check_consumers_frame)
  }
qed

text \<open>
  C4. A connection that is over the deadline at a tick is to be terminated by the tick
  and removed from its role Set and from every subscriber Set. The producer loop of the
  heartbeat terminates an idle producer and deletes it from \<open>producers\<close>, but, unlike
  the consumer loop, does not delete it from the subscriber Sets. The producer of the
  run \<open>subscribed_producer\<close>, idle for 198000 ms at the tick, is still a member of the
  subscriber Set of \<open>d1\<close> when the tick has completed; it leaves the Set only when its
  \<open>close\<close> handler runs.
\<close>

theorem idle_producer_stays_subscribed:
  "0 \<in> set (producers subscribed_producer) \<and>
   200000 - lastActivity (sockets subscribed_producer 0) > 120000 \<and>
   heartbeat_tick (Some 1) 200000 subscribed_producer =
     (Normal (), subscribed_producer\<lparr>producers := [], deviceSubscriptions := [(''d1'', [0])]\<rparr>,
      [Terminate 0]) \<and>
   isSubscribedToSpecificDevice (fst (snd (heartbeat_tick (Some 1) 200000 subscribed_producer))) 0 \<and>
   deviceSubscriptions (on_close 0 (fst (snd (heartbeat_tick (Some 1) 200000 subscribed_producer)))) = []"
  by (simp add: subscribed_producer_simps heartbeat_tick_def on_close_def set_delete_def
        delete_everywhere_def set_size_def isSubscribedToSpecificDevice_def set_has_def Let_def)

section \<open>Empty subscriber sets\<close>

text \<open>
  When the subscription object has each property name once, no property with an
  empty Set is left by the \<open>close\<close> handler, nor by a heartbeat tick that completes
  normally; and a tick would complete normally were \<open>WebSocket\<close> bound.
\<close>

lemma no_empty_subscription_after_cleanup:
  assumes "distinct (map fst (deviceSubscriptions s))"
  shows "list_all (\<lambda>p. snd p \<noteq> []) (deviceSubscriptions (on_close ws s)) \<and>
         fst (heartbeat_tick (Some k) now s) = Normal () \<and>
         (fst (heartbeat_tick W now s) = Normal () \<longrightarrow>
            list_all (\<lambda>p. snd p \<noteq> []) (deviceSubscriptions (fst (snd (heartbeat_tick W now s)))))"
proof (intro conjI impI)
  have "distinct (map fst (delete_everywhere ws (deviceSubscriptions s)))"
    using assms by (simp add: delete_everywhere_keys)
  then show "list_all (\<lambda>p. snd p \<noteq> []) (deviceSubscriptions (on_close ws s))"
    by (simp add: on_close_def Let_def cleanup_all_keys)
next
  show "fst (heartbeat_tick (Some k) now s) = Normal ()"
    by (simp add: heartbeat_tick_bound Let_def)
next
  assume "fst (heartbeat_tick W now s) = Normal ()"
  then obtain obj where keys: "map fst obj = map fst (deviceSubscriptions s)"
    and result: "deviceSubscriptions (fst (snd (heartbeat_tick W now s))) = cleanup_empty (map fst obj) obj"
    using heartbeat_tick_subscriptions by blast
  from keys assms have "distinct (map fst obj)" by simp
  then have "list_all (\<lambda>p. snd p \<noteq> []) (cleanup_empty (map fst obj) obj)"
    by (rule cleanup_all_keys)
  with result show "list_all (\<lambda>p. snd p \<noteq> []) (deviceSubscriptions (fst (snd (heartbeat_tick W now s))))"
    by simp
qed

lemma no_empty_subscription_after_cleanup_example:
  "distinct (map fst (deviceSubscriptions consumer_of_d1)) \<and>
   deviceSubscriptions consumer_of_d1 = [(''d1'', [0])] \<and>
   list_all (\<lambda>p. snd p \<noteq> []) (deviceSubscriptions (on_close 0 consumer_of_d1)) \<and>
   fst (heartbeat_tick (Some 1) 200000 consumer_of_d1) = Normal () \<and>
   list_all (\<lambda>p. snd p \<noteq> [])
     (deviceSubscriptions (fst (snd (heartbeat_tick (Some 1) 200000 consumer_of_d1))))"
  using no_empty_subscription_after_cleanup [of consumer_of_d1 0 1 200000 "Some 1"]
  by (simp add: consumer_of_d1_simps)


section \<open>Reachable states\<close>

lemma connection_wf:
  assumes "wf_server s"
  shows "wf_server (fst (snd (on_connection ws clientType_param deviceId_param now s)))"
  using assms
  by (auto simp: on_connection_def wf_server_def Let_def set_add_distinct
           split: completion.splits intro: add_subscription_wf)

lemma message_wf:
  assumes "wf_server s"
  shows "wf_server (fst (snd (on_message ws message now s)))"
proof -
  have "wf_server (fst (snd (message_try ws message now s)))"
  proof (cases message)
    case Not_json
    with assms show ?thesis by (simp add: message_try_def JSON_parse_def)
  next
    case (Json_text j)
    with assms show ?thesis
      by (cases j)
         (auto simp: message_try_def JSON_parse_def wf_server_def touch_def Let_def
               split: completion.splits prod.splits intro: add_subscription_wf)
  qed
  then show ?thesis by (auto simp: on_message_def split: completion.splits prod.splits)
qed

lemma close_wf: "wf_server s \<Longrightarrow> wf_server (on_close ws s)"
  by (simp add: on_close_def wf_server_def Let_def set_delete_def distinct_removeAll
        delete_everywhere_wf cleanup_empty_wf)

lemma pong_wf: "wf_server s \<Longrightarrow> wf_server (on_pong ws now s)"
  by (simp add: on_pong_def wf_server_def)

lemma check_producers_wf:
  "wf_server s \<Longrightarrow> wf_server (fst (snd (check_producers W now cs s)))"
proof (induction cs arbitrary: s)
  case Nil
  then show ?case by simp
next
  case (Cons client rest)
  have "wf_server (s\<lparr>producers := set_delete client (producers s)\<rparr>)"
    using Cons.prems by (simp add: wf_server_def set_delete_def distinct_removeAll)
  from Cons.IH[OF this] Cons.IH[OF Cons.prems] Cons.prems show ?case
    by (cases W) (simp_all add: case_prod_unfold)
qed

lemma check_consumers_wf:
  "wf_server s \<Longrightarrow> wf_server (fst (snd (check_consumers W now cs s)))"
proof (induction cs arbitrary: s)
  case Nil
  then show ?case by simp
next
  case (Cons client rest)
  have "wf_server (s\<lparr>consumers := set_delete client (consumers s),
                     deviceSubscriptions := delete_everywhere client (deviceSubscriptions s)\<rparr>)"
    using Cons.prems
    by (simp add: wf_server_def set_delete_def distinct_removeAll delete_everywhere_wf)
  from Cons.IH[OF this] Cons.IH[OF Cons.prems] Cons.prems show ?case
    by (cases W) (simp_all add: case_prod_unfold)
qed

lemma heartbeat_wf:
  assumes "wf_server s"
  shows "wf_server (fst (snd (heartbeat_tick W now s)))"
proof -
  obtain r1 s1 es1 where p: "check_producers W now (producers s) s = (r1, s1, es1)"
    by (cases "check_producers W now (producers s) s") auto
  obtain r2 s2 es2 where c: "check_consumers W now (consumers s1) s1 = (r2, s2, es2)"
    by (cases "check_consumers W now (consumers s1) s1") auto
  have wf1: "wf_server s1"
    using check_producers_wf[OF assms, of W now "producers s"] p by simp
  have wf2: "wf_server s2"
    using check_consumers_wf[OF wf1, of W now "consumers s1"] c by simp
  then have wf3: "wf_server
      (s2\<lparr>deviceSubscriptions :=
            cleanup_empty (map fst (deviceSubscriptions s2)) (deviceSubscriptions s2)\<rparr>)"
    by (simp add: wf_server_def cleanup_empty_wf)
  show ?thesis
    using p c wf1 wf2 wf3
    by (cases r1; cases r2) (simp_all add: heartbeat_tick_def)
qed

text \<open>Every reachable state is well-formed.\<close>

lemma reachable_wf: "reachable W s \<Longrightarrow> wf_server s"
proof (induction rule: reachable.induct)
  case started
  show ?case by (simp add: wf_server_def wf_subscriptions_def startup_def)
next
  case (connected s ws clientType_param deviceId_param now s' es)
  from connection_wf[OF connected.IH, of ws clientType_param deviceId_param now] connected.hyps
  show ?case by simp
next
  case (received s ws message now r s' es)
  from message_wf[OF received.IH, of ws message now] received.hyps show ?case by simp
next
  case (ponged s ws now)
  then show ?case by (simp add: pong_wf)
next
  case (closed s ws)
  then show ?case by (simp add: close_wf)
next
  case (ticked s now s' es)
  from heartbeat_wf[OF ticked.IH, of W now] ticked.hyps show ?case by simp
next
  case (readyState_changed s ws k)
  then show ?case by (simp add: wf_server_def)
qed

lemma connection_no_inherited:
  assumes "no_inherited_names (deviceSubscriptions s)"
  shows "no_inherited_names
           (deviceSubscriptions (fst (snd (on_connection ws clientType_param deviceId_param now s))))"
  using assms
  by (auto simp: on_connection_def Let_def split: completion.splits
           intro: add_subscription_no_inherited)

lemma message_no_inherited:
  assumes "no_inherited_names (deviceSubscriptions s)"
  shows "no_inherited_names (deviceSubscriptions (fst (snd (on_message ws message now s))))"
proof -
  have "no_inherited_names (deviceSubscriptions (fst (snd (message_try ws message now s))))"
  proof (cases message)
    case Not_json
    with assms show ?thesis by (simp add: message_try_def JSON_parse_def)
  next
    case (Json_text j)
    with assms show ?thesis
      by (cases j)
         (auto simp: message_try_def JSON_parse_def touch_def Let_def
               split: completion.splits prod.splits intro: add_subscription_no_inherited)
  qed
  then show ?thesis by (auto simp: on_message_def split: completion.splits prod.splits)
qed

lemma close_no_inherited:
  "no_inherited_names (deviceSubscriptions s) \<Longrightarrow>
   no_inherited_names (deviceSubscriptions (on_close ws s))"
  by (simp add: on_close_def Let_def delete_everywhere_no_inherited cleanup_empty_no_inherited)

lemma check_consumers_no_inherited:
  "no_inherited_names (deviceSubscriptions s) \<Longrightarrow>
   no_inherited_names (deviceSubscriptions (fst (snd (check_consumers W now cs s))))"
proof (induction cs arbitrary: s)
  case Nil
  then show ?case by simp
next
  case (Cons client rest)
  have "no_inherited_names (deviceSubscriptions
          (s\<lparr>consumers := set_delete client (consumers s),
             deviceSubscriptions := delete_everywhere client (deviceSubscriptions s)\<rparr>))"
    using Cons.prems by (simp add: delete_everywhere_no_inherited)
  from Cons.IH[OF this] Cons.IH[OF Cons.prems] Cons.prems show ?case
    by (cases W) (simp_all add: case_prod_unfold)
qed

lemma heartbeat_no_inherited:
  assumes "no_inherited_names (deviceSubscriptions s)"
  shows "no_inherited_names (deviceSubscriptions (fst (snd (heartbeat_tick W now s))))"
proof -
  obtain r1 s1 es1 where p: "check_producers W now (producers s) s = (r1, s1, es1)"
    by (cases "check_producers W now (producers s) s") auto
  obtain r2 s2 es2 where c: "check_consumers W now (consumers s1) s1 = (r2, s2, es2)"
    by (cases "check_consumers W now (consumers s1) s1") auto
  have n1: "no_inherited_names (deviceSubscriptions s1)"
    using check_producers_frame[of W now "producers s" s] p assms by simp
  have n2: "no_inherited_names (deviceSubscriptions s2)"
    using check_consumers_no_inherited[OF n1, of W now "consumers s1"] c by simp
  then have n3: "no_inherited_names
      (cleanup_empty (map fst (deviceSubscriptions s2)) (deviceSubscriptions s2))"
    by (rule cleanup_empty_no_inherited)
  show ?thesis
    using p c n1 n2 n3
    by (cases r1; cases r2) (simp_all add: heartbeat_tick_def)
qed

text \<open>
  No reachable state has a subscriber Set under a name that \<open>Object.prototype\<close> defines,
  so in every reachable state a telemetry event for such a device throws before any
  \<open>send\<close>.
\<close>

lemma reachable_no_inherited: "reachable W s \<Longrightarrow> no_inherited_names (deviceSubscriptions s)"
proof (induction rule: reachable.induct)
  case started
  show ?case by (simp add: no_inherited_names_def startup_def)
next
  case (connected s ws clientType_param deviceId_param now s' es)
  from connection_no_inherited[OF connected.IH, of ws clientType_param deviceId_param now]
    connected.hyps
  show ?case by simp
next
  case (received s ws message now r s' es)
  from message_no_inherited[OF received.IH, of ws message now] received.hyps show ?case by simp
next
  case (ponged s ws now)
  then show ?case by (simp add: on_pong_def)
next
  case (closed s ws)
  then show ?case by (simp add: close_no_inherited)
next
  case (ticked s now s' es)
  from heartbeat_no_inherited[OF ticked.IH, of W now] ticked.hyps show ?case by simp
next
  case (readyState_changed s ws k)
  then show ?case by simp
qed

lemma telemetry_for_inherited_name_throws:
  assumes "reachable W s" and "target_device data = Some D" and "D \<in> set Object_prototype_names"
  shows "broadcastTelemetry data now s = (Throw TypeError, [])"
proof -
  have "get_property (deviceSubscriptions s) D = Inherited"
    using assms(1,3) by (simp add: reachable_no_inherited no_inherited_names_lookup)
  moreover have "D \<noteq> []" using assms(3) by (auto simp: Object_prototype_names_def)
  ultimately show ?thesis using assms(2) by (simp add: broadcastTelemetry_def)
qed

text \<open>The run in which a producer subscribes is a run of the server.\<close>

lemma subscribed_producer_reachable: "reachable W subscribed_producer"
proof -
  let ?s1 = "fst (snd (on_connection 0 (Some ''producer'') None 1000 startup))"
  have c: "on_connection 0 (Some ''producer'') None 1000 startup =
             (Normal (), ?s1, [Send 0 (Connection ''producer'' (ISO 1000))])"
    by (simp add: on_connection_def truthy_def Let_def)
  have "reachable W ?s1"
    by (rule reachable.connected[OF reachable.started _ _ _ c])
       (simp_all add: startup_def isSubscribedToSpecificDevice_def)
  moreover have "0 \<in> set (consumers ?s1) \<union> set (producers ?s1)"
    by (simp add: on_connection_def truthy_def Let_def set_add_def startup_def)
  moreover have "on_message 0 (Json_text (Json_object (frame ''subscribe'' (Some ''d1'')))) 2000 ?s1 =
      (fst (on_message 0 (Json_text (Json_object (frame ''subscribe'' (Some ''d1'')))) 2000 ?s1),
       subscribed_producer,
       snd (snd (on_message 0 (Json_text (Json_object (frame ''subscribe'' (Some ''d1'')))) 2000 ?s1)))"
    by (simp add: subscribed_producer_def)
  ultimately show ?thesis by (rule reachable.received)
qed

text \<open>
  C2. In every reachable state every member of every subscriber Set is to be a
  consumer, never a producer. The \<open>subscribe\<close> branch does not look at the sender's
  role: a producer (connection 0) that sends \<open>{"type": "subscribe", "deviceId": "d1"}\<close>
  is confirmed and becomes a member of the subscriber Set of \<open>d1\<close>, while it is a
  member of \<open>producers\<close> and not of \<open>consumers\<close>. This is a reachable state in which a
  subscriber is not a consumer.
\<close>

theorem producer_joins_subscriber_set:
  "reachable W subscribed_producer \<and>
   producers subscribed_producer = [0] \<and>
   consumers subscribed_producer = [] \<and>
   deviceSubscriptions subscribed_producer = [(''d1'', [0])] \<and>
   \<not> subscribers_are_consumers subscribed_producer \<and>
   snd (snd (on_message 0 (Json_text (Json_object (frame ''subscribe'' (Some ''d1'')))) 2000
       (fst (snd (on_connection 0 (Some ''producer'') None 1000 startup))))) =
     [Send 0 (Subscription_confirmed ''d1'' (ISO 2000))]"
  by (simp add: subscribed_producer_reachable subscribed_producer_simps subscribers_are_consumers_def
        on_message_def message_try_def JSON_parse_def touch_def
        frame_def on_connection_def startup_def truthy_def Let_def
        add_subscription_def get_property_def Object_prototype_names_def set_add_def)

end
